theory Spec2Isabelle
  imports Complex_Main
begin

section \<open>Workout metrics of main.py\<close>

text \<open>
  The theory embeds the decoding and analysis pipeline of \<^verbatim>\<open>main.py\<close>:
  \<^verbatim>\<open>parse_times\<close>, \<^verbatim>\<open>parse_hr\<close>, \<^verbatim>\<open>parse_pace\<close>, \<^verbatim>\<open>generate_timestamps\<close>,
  the body of \<^verbatim>\<open>process_workout\<close>, the time-series loop of \<^verbatim>\<open>export_csv\<close> and the
  loop of \<^verbatim>\<open>main\<close>.

  Conventions.
  \<^item> A Python \<^verbatim>\<open>str\<close> is a \<open>string\<close>, an \<^verbatim>\<open>int\<close> an \<open>int\<close>, a length or counter a
    \<open>nat\<close>.
  \<^item> A Python \<^verbatim>\<open>float\<close> is a \<open>real\<close>: rounding, infinities and NaN are not modelled.
    The heart rates are integers stored in floats, which is exact below \<open>2^53\<close>. A pace
    token such as \<^verbatim>\<open>nan\<close>, which \<^verbatim>\<open>float\<close> accepts and which is neither positive nor
    equal to 0, has no counterpart here.
  \<^item> The builtins \<^verbatim>\<open>int(s)\<close> and \<^verbatim>\<open>float(s)\<close> on a string are parameters
    \<open>pint :: string \<Rightarrow> int option\<close> and \<open>pfloat :: string \<Rightarrow> real option\<close>,
    \<open>None\<close> standing for \<^verbatim>\<open>ValueError\<close>; the formatting of a point in time
    (\<^verbatim>\<open>strftime\<close> after the time-zone conversion) is a parameter \<open>fmt :: int \<Rightarrow> string\<close>
    on epoch seconds. Every theorem holds for all of them.
  \<^item> A dict of the API's JSON is a map from keys to strings.
  \<^item> An exception is a value \<open>Inl e\<close> of a sum type.
\<close>

subsection \<open>Strings\<close>

datatype py_error = ValueError | TypeError | IndexError | ZeroDivisionError

text \<open>\<^verbatim>\<open>s.split(sep)\<close> for a one-character separator: the pieces between the
  separators, empty ones included; the empty string gives one empty piece.\<close>

fun split_on :: "char \<Rightarrow> string \<Rightarrow> string list" where
  "split_on sep [] = [[]]"
| "split_on sep (c # cs) =
     (if c = sep then [] # split_on sep cs
      else (case split_on sep cs of
              [] \<Rightarrow> [[c]]
            | piece # pieces \<Rightarrow> (c # piece) # pieces))"

text \<open>\<^verbatim>\<open>s.replace(",", ".")\<close>.\<close>

definition replace_comma :: "string \<Rightarrow> string" where
  "replace_comma s = map (\<lambda>c. if c = CHR '','' then CHR ''.'' else c) s"

text \<open>The characters below 256 that \<^verbatim>\<open>str.strip()\<close> removes: tab, line feed,
  vertical tab, form feed, carriage return, the four separators \<open>0x1c\<close> to \<open>0x1f\<close>, the
  space, the next-line character \<open>0x85\<close> and the no-break space \<open>0xa0\<close>. A \<open>char\<close> stands
  for the code point of that number.\<close>

definition is_space :: "char \<Rightarrow> bool" where
  "is_space c =
     (let k = (of_char c :: nat)
      in (9 \<le> k \<and> k \<le> 13) \<or> (28 \<le> k \<and> k \<le> 32) \<or> k = 133 \<or> k = 160)"

definition strip :: "string \<Rightarrow> string" where
  "strip s = rev (dropWhile is_space (rev (dropWhile is_space s)))"

text \<open>\<^verbatim>\<open>d.get(key, "")\<close> on a dict of strings.\<close>

type_synonym json_dict = "string \<rightharpoonup> string"

definition get_str :: "json_dict \<Rightarrow> string \<Rightarrow> string" where
  "get_str d key = (case d key of None \<Rightarrow> [] | Some v \<Rightarrow> v)"

subsection \<open>The three decoders\<close>

text \<open>\<^verbatim>\<open>parse_times\<close>: \<^verbatim>\<open>[t.strip() for t in t_str.split(";") if t.strip()]\<close>.\<close>

definition parse_times :: "json_dict \<Rightarrow> string list" where
  "parse_times detail_data =
     (let t_str = get_str detail_data ''time''
      in map strip (filter (\<lambda>t. strip t \<noteq> []) (split_on CHR '';'' t_str)))"

text \<open>The loop of \<^verbatim>\<open>parse_hr\<close> over the segments, with the list \<^verbatim>\<open>hr_values\<close> it
  appends to: a segment with fewer than two comma-separated parts appends nothing, a second
  part that \<^verbatim>\<open>int\<close> rejects appends 0.\<close>

fun hr_loop :: "(string \<Rightarrow> int option) \<Rightarrow> string list \<Rightarrow> int list \<Rightarrow> int list" where
  "hr_loop pint [] hr_values = hr_values"
| "hr_loop pint (segment # segments) hr_values =
     (let parts = split_on CHR '','' segment
      in if length parts > 1 then
           (case pint (parts ! 1) of
              Some hr_val \<Rightarrow> hr_loop pint segments (hr_values @ [hr_val])
            | None \<Rightarrow> hr_loop pint segments (hr_values @ [0]))
         else hr_loop pint segments hr_values)"

definition parse_hr :: "(string \<Rightarrow> int option) \<Rightarrow> json_dict \<Rightarrow> int list" where
  "parse_hr pint detail_data =
     (let hr_str = get_str detail_data ''heart_rate''
      in if hr_str \<noteq> [] then
           hr_loop pint (filter (\<lambda>seg. seg \<noteq> []) (split_on CHR '';'' hr_str)) []
         else [])"

text \<open>\<^verbatim>\<open>parse_pace\<close>: commas become periods, then the string is split as the times are.\<close>

definition parse_pace :: "json_dict \<Rightarrow> string list" where
  "parse_pace detail_data =
     (let pace_str = replace_comma (get_str detail_data ''pace'')
      in map strip (filter (\<lambda>v. strip v \<noteq> []) (split_on CHR '';'' pace_str)))"

text \<open>\<^verbatim>\<open>generate_timestamps\<close>: one formatted time per second from the start.\<close>

definition generate_timestamps :: "(int \<Rightarrow> string) \<Rightarrow> int \<Rightarrow> nat \<Rightarrow> string list" where
  "generate_timestamps fmt start_time count = map (\<lambda>i. fmt (start_time + int i)) [0..<count]"

subsection \<open>Aligning the series\<close>

text \<open>\<^verbatim>\<open>min(len(raw_times), len(hr_values), len(raw_paces))\<close>.\<close>

definition num_points_of :: "string list \<Rightarrow> int list \<Rightarrow> string list \<Rightarrow> nat" where
  "num_points_of raw_times hr_values raw_paces =
     min (length raw_times) (min (length hr_values) (length raw_paces))"

text \<open>\<^verbatim>\<open>float(hr_values[0]) if hr_values else 70.0\<close>.\<close>

definition base_hr_of :: "int list \<Rightarrow> real" where
  "base_hr_of hr_values = (if hr_values \<noteq> [] then of_int (hr_values ! 0) else 70)"

text \<open>\<^verbatim>\<open>hr_values[1:] if len(hr_values) > 1 else []\<close>.\<close>

definition hr_differences_of :: "int list \<Rightarrow> int list" where
  "hr_differences_of hr_values = (if length hr_values > 1 then drop 1 hr_values else [])"

text \<open>The loop \<^verbatim>\<open>for diff in hr_differences\<close>, with its two variables \<^verbatim>\<open>cumulative\<close>
  and \<^verbatim>\<open>current_hr\<close>.\<close>

fun cumulate :: "int list \<Rightarrow> real \<Rightarrow> real list \<Rightarrow> real list" where
  "cumulate [] cumulative current_hr = current_hr"
| "cumulate (diff # rest) cumulative current_hr =
     cumulate rest (cumulative + of_int diff) (current_hr @ [cumulative + of_int diff])"

text \<open>Lines 212 to 219: the absolute series, padded with its last value and cut to
  \<^verbatim>\<open>num_points\<close>.\<close>

definition current_hr_of :: "int list \<Rightarrow> nat \<Rightarrow> real list" where
  "current_hr_of hr_values num_points =
     (let base_hr = base_hr_of hr_values;
          current_hr = cumulate (hr_differences_of hr_values) base_hr [base_hr]
      in take num_points (current_hr @ replicate num_points (last current_hr)))"

text \<open>Lines 221 and 222: \<^verbatim>\<open>([0] + hr_differences)[:num_points]\<close>.\<close>

definition hr_variations_of :: "int list \<Rightarrow> nat \<Rightarrow> int list" where
  "hr_variations_of hr_values num_points = take num_points (0 # hr_differences_of hr_values)"

text \<open>The comprehension \<^verbatim>\<open>[float(x) for x in ...]\<close>: the first token that \<^verbatim>\<open>float\<close>
  rejects raises, and no list is built.\<close>

fun float_all :: "(string \<Rightarrow> real option) \<Rightarrow> string list \<Rightarrow> real list option" where
  "float_all pfloat [] = Some []"
| "float_all pfloat (x # xs) =
     (case pfloat x of
        None \<Rightarrow> None
      | Some v \<Rightarrow> (case float_all pfloat xs of None \<Rightarrow> None | Some vs \<Rightarrow> Some (v # vs)))"

text \<open>Lines 224 to 227: the \<^verbatim>\<open>try\<close> with its fallback to zeros.\<close>

definition processed_pace_of :: "(string \<Rightarrow> real option) \<Rightarrow> string list \<Rightarrow> nat \<Rightarrow> real list" where
  "processed_pace_of pfloat raw_paces num_points =
     (case float_all pfloat (take num_points raw_paces) of
        Some processed_pace \<Rightarrow> processed_pace
      | None \<Rightarrow> replicate num_points 0)"

subsection \<open>Heart-rate variance\<close>

text \<open>\<^verbatim>\<open>sum(xs)\<close> adds from the left, starting at 0.\<close>

definition py_sum :: "'a::comm_monoid_add list \<Rightarrow> 'a" where
  "py_sum xs = foldl (+) 0 xs"

text \<open>Lines 234 to 239; \<open>diffs1\<close> is the source's \<^verbatim>\<open>diffs\<close>.\<close>

definition hr_variance_of :: "int list \<Rightarrow> real" where
  "hr_variance_of hr_variations =
     (if length hr_variations > 1 then
        (let diffs1 = map of_int (drop 1 hr_variations);
             mean_diff = py_sum diffs1 / real (length diffs1)
         in py_sum (map (\<lambda>d. (d - mean_diff) ^ 2) diffs1) / real (length diffs1))
      else 0)"

subsection \<open>Heart-rate zones\<close>

text \<open>The value of \<^verbatim>\<open>hr_max_theoretical\<close>.\<close>

definition hr_max_theoretical :: real where
  "hr_max_theoretical = 196"

text \<open>The dict \<^verbatim>\<open>hr_zones\<close> in its insertion order, for a maximum \<open>M\<close>.\<close>

definition hr_zones :: "real \<Rightarrow> (string \<times> real \<times> real) list" where
  "hr_zones M =
     [(''Z1 (50-60%)'', 0.5 * M, 0.6 * M),
      (''Z2 (60-70%)'', 0.6 * M, 0.7 * M),
      (''Z3 (70-80%)'', 0.7 * M, 0.8 * M),
      (''Z4 (80-90%)'', 0.8 * M, 0.9 * M),
      (''Z5 (90-100%)'', 0.9 * M, M)]"

text \<open>The inner loop over the zones: the first zone with \<^verbatim>\<open>low <= hr < high\<close>, where the
  loop breaks; \<open>None\<close> when the loop ends without a match.\<close>

fun find_zone :: "(string \<times> real \<times> real) list \<Rightarrow> real \<Rightarrow> string option" where
  "find_zone [] hr = None"
| "find_zone ((zone, low, high) # zones) hr =
     (if low \<le> hr \<and> hr < high then Some zone else find_zone zones hr)"

text \<open>\<^verbatim>\<open>zone_counts[zone] += 1\<close> on the dict kept as an association list.\<close>

fun increment :: "string \<Rightarrow> (string \<times> nat) list \<Rightarrow> (string \<times> nat) list" where
  "increment zone [] = []"
| "increment zone ((z, count) # rest) =
     (if z = zone then (z, count + 1) # rest else (z, count) # increment zone rest)"

text \<open>The outer loop over \<^verbatim>\<open>current_hr\<close>.\<close>

fun count_zones :: "(string \<times> real \<times> real) list \<Rightarrow> real list \<Rightarrow> (string \<times> nat) list
    \<Rightarrow> (string \<times> nat) list" where
  "count_zones zones [] zone_counts = zone_counts"
| "count_zones zones (hr # hrs) zone_counts =
     (case find_zone zones hr of
        Some zone \<Rightarrow> count_zones zones hrs (increment zone zone_counts)
      | None \<Rightarrow> count_zones zones hrs zone_counts)"

definition zone_counts_of :: "real \<Rightarrow> real list \<Rightarrow> (string \<times> nat) list" where
  "zone_counts_of M current_hr =
     count_zones (hr_zones M) current_hr (map (\<lambda>(zone, band). (zone, 0)) (hr_zones M))"

text \<open>Line 254; the caller has excluded \<^verbatim>\<open>num_points == 0\<close>.\<close>

definition zone_percentages_of :: "real \<Rightarrow> real list \<Rightarrow> nat \<Rightarrow> (string \<times> real) list" where
  "zone_percentages_of M current_hr num_points =
     map (\<lambda>(zone, count). (zone, (real count / real num_points) * 100))
       (zone_counts_of M current_hr)"

subsection \<open>Effort and rest\<close>

datatype seg_state = Idle | Effort

text \<open>The loop of lines 260 to 274 with its four variables, in the order \<^verbatim>\<open>state\<close>,
  \<^verbatim>\<open>duration\<close>, \<^verbatim>\<open>effort_durations\<close>, \<^verbatim>\<open>rest_durations\<close>.\<close>

fun segment_loop :: "real list \<Rightarrow> seg_state \<Rightarrow> nat \<Rightarrow> nat list \<Rightarrow> nat list
    \<Rightarrow> seg_state \<times> nat \<times> nat list \<times> nat list" where
  "segment_loop [] state duration effort_durations rest_durations =
     (state, duration, effort_durations, rest_durations)"
| "segment_loop (p # ps) state duration effort_durations rest_durations =
     (if p > 0 then
        (if state = Effort then
           segment_loop ps state (duration + 1) effort_durations rest_durations
         else segment_loop ps Effort 1 effort_durations (rest_durations @ [duration]))
      else
        (if state = Idle then
           segment_loop ps state (duration + 1) effort_durations rest_durations
         else segment_loop ps Idle 1 (effort_durations @ [duration]) rest_durations))"

text \<open>Line 258: the initial state from the first sample.\<close>

definition initial_state :: "real list \<Rightarrow> seg_state" where
  "initial_state processed_pace = (if processed_pace ! 0 = 0 then Idle else Effort)"

text \<open>Lines 275 to 278: the open run goes to the list of its state. The result is
  \<open>(effort_durations, rest_durations)\<close>.\<close>

fun flush :: "seg_state \<times> nat \<times> nat list \<times> nat list \<Rightarrow> nat list \<times> nat list" where
  "flush (state, duration, effort_durations, rest_durations) =
     (if state = Effort then (effort_durations @ [duration], rest_durations)
      else (effort_durations, rest_durations @ [duration]))"

text \<open>Lines 256 to 278; \<^verbatim>\<open>processed_pace[0]\<close> raises on an empty series.\<close>

definition segment :: "real list \<Rightarrow> py_error + (nat list \<times> nat list)" where
  "segment processed_pace =
     (if processed_pace = [] then Inl IndexError
      else Inr (flush (segment_loop processed_pace (initial_state processed_pace) 0 [] [])))"

text \<open>\<^verbatim>\<open>sum(ds) / len(ds) if ds else 0\<close>.\<close>

definition avg_duration :: "nat list \<Rightarrow> real" where
  "avg_duration ds = (if ds \<noteq> [] then real (py_sum ds) / real (length ds) else 0)"

subsection \<open>Summary figures\<close>

text \<open>\<^verbatim>\<open>float(workout.get(key, 0))\<close>.\<close>

definition float_field :: "(string \<Rightarrow> real option) \<Rightarrow> json_dict \<Rightarrow> string \<Rightarrow> py_error + real" where
  "float_field pfloat workout key =
     (case workout key of
        None \<Rightarrow> Inr 0
      | Some v \<Rightarrow> (case pfloat v of None \<Rightarrow> Inl ValueError | Some x \<Rightarrow> Inr x))"

text \<open>Line 285.\<close>

definition total_distance_of :: "real \<Rightarrow> real \<Rightarrow> real" where
  "total_distance_of laps pool_length = laps * pool_length"

text \<open>Line 286.\<close>

definition average_pace_of :: "real list \<Rightarrow> nat \<Rightarrow> real" where
  "average_pace_of processed_pace num_points =
     (if num_points > 0 then py_sum processed_pace / real num_points else 0)"

text \<open>Line 287: \<^verbatim>\<open>sum(1 for p in processed_pace if p > 0)\<close>.\<close>

definition moving_of :: "real list \<Rightarrow> nat" where
  "moving_of processed_pace = py_sum (map (\<lambda>p. 1) (filter (\<lambda>p. p > 0) processed_pace))"

text \<open>Lines 288 and 289.\<close>

definition percentage_moving_of :: "real list \<Rightarrow> nat \<Rightarrow> real" where
  "percentage_moving_of processed_pace num_points =
     (real (moving_of processed_pace) / real num_points) * 100"

definition percentage_idle_of :: "real list \<Rightarrow> nat \<Rightarrow> real" where
  "percentage_idle_of processed_pace num_points =
     100 - percentage_moving_of processed_pace num_points"

text \<open>The dict \<^verbatim>\<open>computed_metrics\<close>.\<close>

record computed_metrics =
  total_distance :: real
  average_pace :: real
  percentage_moving :: real
  percentage_idle :: real
  hr_max :: real
  hr_min :: real
  hr_start :: real
  hr_end :: real
  hr_variance :: real
  avg_effort_duration :: real
  avg_rest_duration :: real
  zone_percentages :: "(string \<times> real) list"

text \<open>Lines 229 to 304 of \<^verbatim>\<open>process_workout\<close>, in the order in which the source can
  raise: \<^verbatim>\<open>max\<close> of an empty list, the division by \<^verbatim>\<open>num_points\<close> in the zone
  percentages, \<^verbatim>\<open>processed_pace[0]\<close>, and the two calls of \<^verbatim>\<open>float\<close>.\<close>

definition compute_metrics :: "(string \<Rightarrow> real option) \<Rightarrow> json_dict \<Rightarrow> int list \<Rightarrow> real list
    \<Rightarrow> real list \<Rightarrow> nat \<Rightarrow> py_error + computed_metrics" where
  "compute_metrics pfloat workout hr_vars cur_hr processed_pace num_points =
     (case cur_hr of
        [] \<Rightarrow> Inl ValueError
      | h # hs \<Rightarrow>
          if num_points = 0 then Inl ZeroDivisionError
          else
            (case segment processed_pace of
               Inl e \<Rightarrow> Inl e
             | Inr (effort_durations, rest_durations) \<Rightarrow>
                 (case float_field pfloat workout ''total_trips'' of
                    Inl e \<Rightarrow> Inl e
                  | Inr laps \<Rightarrow>
                      (case float_field pfloat workout ''swim_pool_length'' of
                         Inl e \<Rightarrow> Inl e
                       | Inr pool_length \<Rightarrow>
                           Inr \<lparr> total_distance = total_distance_of laps pool_length,
                                 average_pace = average_pace_of processed_pace num_points,
                                 percentage_moving = percentage_moving_of processed_pace num_points,
                                 percentage_idle = percentage_idle_of processed_pace num_points,
                                 hr_max = foldl max h hs,
                                 hr_min = foldl min h hs,
                                 hr_start = h,
                                 hr_end = last cur_hr,
                                 hr_variance = hr_variance_of hr_vars,
                                 avg_effort_duration = avg_duration effort_durations,
                                 avg_rest_duration = avg_duration rest_durations,
                                 zone_percentages =
                                   zone_percentages_of hr_max_theoretical cur_hr num_points \<rparr>))))"

subsection \<open>One workout, and the batch\<close>

text \<open>What \<^verbatim>\<open>process_workout\<close> hands to \<^verbatim>\<open>export_csv\<close>.\<close>

record csv_export =
  csv_timestamps :: "string list"
  csv_hr_variations :: "int list"
  csv_current_hr :: "real list"
  csv_paces :: "real list"
  csv_metrics :: computed_metrics

text \<open>A workout ends in the warning of line 205 and no file, or in a call of
  \<^verbatim>\<open>export_csv\<close>.\<close>

datatype workout_result = Skipped string | Exported csv_export

text \<open>\<^verbatim>\<open>f"No usable data for workout {track_id}"\<close>; a missing id prints as \<^verbatim>\<open>None\<close>.\<close>

definition no_data_warning :: "string option \<Rightarrow> string" where
  "no_data_warning track_id =
     ''No usable data for workout '' @ (case track_id of None \<Rightarrow> ''None'' | Some t \<Rightarrow> t)"

text \<open>Line 208: \<^verbatim>\<open>int(track_id)\<close> as epoch seconds, and \<^verbatim>\<open>datetime.fromtimestamp\<close>,
  which raises for a time before the year 1 or after the year 9999 (the kind of that
  exception is not distinguished from \<^verbatim>\<open>ValueError\<close>). The conversion to the zone of
  Montreal and the addition of seconds in \<^verbatim>\<open>generate_timestamps\<close> are taken to succeed
  on every time in that range.\<close>

definition start_time_of :: "(string \<Rightarrow> int option) \<Rightarrow> string option \<Rightarrow> py_error + int" where
  "start_time_of pint track_id =
     (case track_id of
        None \<Rightarrow> Inl TypeError
      | Some t \<Rightarrow>
          (case pint t of
             None \<Rightarrow> Inl ValueError
           | Some secs \<Rightarrow>
               if - 62135596800 \<le> secs \<and> secs \<le> 253402300799 then Inr secs
               else Inl ValueError))"

text \<open>\<^verbatim>\<open>process_workout\<close>, given the detail record that the API returned for the
  workout.\<close>

definition process_workout :: "(string \<Rightarrow> int option) \<Rightarrow> (string \<Rightarrow> real option) \<Rightarrow> (int \<Rightarrow> string)
    \<Rightarrow> json_dict \<Rightarrow> json_dict \<Rightarrow> py_error + workout_result" where
  "process_workout pint pfloat fmt workout detail_data =
     (let track_id = workout ''trackid'';
          raw_times = parse_times detail_data;
          hr_values = parse_hr pint detail_data;
          raw_paces = parse_pace detail_data;
          num_points = num_points_of raw_times hr_values raw_paces
      in if num_points = 0 then Inr (Skipped (no_data_warning track_id))
         else
           (case start_time_of pint track_id of
              Inl e \<Rightarrow> Inl e
            | Inr start_time \<Rightarrow>
                (let cur_hr = current_hr_of hr_values num_points;
                     hr_vars = hr_variations_of hr_values num_points;
                     processed_pace = processed_pace_of pfloat raw_paces num_points
                 in case compute_metrics pfloat workout hr_vars cur_hr processed_pace num_points of
                      Inl e \<Rightarrow> Inl e
                    | Inr cm \<Rightarrow>
                        Inr (Exported
                          \<lparr> csv_timestamps = generate_timestamps fmt start_time num_points,
                            csv_hr_variations = hr_vars,
                            csv_current_hr = cur_hr,
                            csv_paces = processed_pace,
                            csv_metrics = cm \<rparr>))))"

text \<open>\<^verbatim>\<open>xs[i]\<close> for an index that is not negative.\<close>

definition py_index :: "'a list \<Rightarrow> nat \<Rightarrow> py_error + 'a" where
  "py_index xs i = (if i < length xs then Inr (xs ! i) else Inl IndexError)"

text \<open>A row of the time-series section: timestamp, index, minutes and seconds of the
  elapsed time, variation, heart rate, pace.\<close>

type_synonym csv_row = "string \<times> nat \<times> (nat \<times> nat) \<times> int \<times> real \<times> real"

text \<open>The loop of lines 182 to 186 of \<^verbatim>\<open>export_csv\<close> over the indices it is given;
  the first index out of range raises.\<close>

fun rows_loop :: "csv_export \<Rightarrow> nat list \<Rightarrow> py_error + csv_row list" where
  "rows_loop x [] = Inr []"
| "rows_loop x (i # rest) =
     (case py_index (csv_timestamps x) i of
        Inl e \<Rightarrow> Inl e
      | Inr t \<Rightarrow>
          (case py_index (csv_hr_variations x) i of
             Inl e \<Rightarrow> Inl e
           | Inr v \<Rightarrow>
               (case py_index (csv_current_hr x) i of
                  Inl e \<Rightarrow> Inl e
                | Inr h \<Rightarrow>
                    (case py_index (csv_paces x) i of
                       Inl e \<Rightarrow> Inl e
                     | Inr p \<Rightarrow>
                         (case rows_loop x rest of
                            Inl e \<Rightarrow> Inl e
                          | Inr rows \<Rightarrow> Inr ((t, i, (i div 60, i mod 60), v, h, p) # rows))))))"

text \<open>\<^verbatim>\<open>for i in range(len(timestamps))\<close>.\<close>

definition time_series_rows :: "csv_export \<Rightarrow> py_error + csv_row list" where
  "time_series_rows x = rows_loop x [0..<length (csv_timestamps x)]"

text \<open>The loop of \<^verbatim>\<open>main\<close> over the workouts, each with its detail record: the results
  in order, and the exception that ended the loop, if one did.\<close>

fun main_loop :: "(string \<Rightarrow> int option) \<Rightarrow> (string \<Rightarrow> real option) \<Rightarrow> (int \<Rightarrow> string)
    \<Rightarrow> (json_dict \<times> json_dict) list \<Rightarrow> workout_result list \<times> py_error option" where
  "main_loop pint pfloat fmt [] = ([], None)"
| "main_loop pint pfloat fmt ((workout, detail_data) # rest) =
     (case process_workout pint pfloat fmt workout detail_data of
        Inl e \<Rightarrow> ([], Some e)
      | Inr r \<Rightarrow>
          (case main_loop pint pfloat fmt rest of (rs, err) \<Rightarrow> (r # rs, err)))"

text \<open>The files written by a run of the loop.\<close>

fun exports :: "workout_result list \<Rightarrow> csv_export list" where
  "exports [] = []"
| "exports (Skipped w # rs) = exports rs"
| "exports (Exported x # rs) = x # exports rs"

section \<open>Reference notions\<close>

text \<open>The notions that the properties below compare the program with. None of them is
  used by the definitions above.\<close>

text \<open>The maximal runs of a list of flags, in order, each with its flag and its length.\<close>

fun runs :: "bool list \<Rightarrow> (bool \<times> nat) list" where
  "runs [] = []"
| "runs (b # bs) =
     (case runs bs of
        [] \<Rightarrow> [(b, 1)]
      | (b', k) # rs \<Rightarrow> if b' = b then (b, Suc k) # rs else (b, 1) # (b', k) # rs)"

text \<open>A sample moves when its pace is positive. The effort runs are the runs of moving
  samples, the rest runs the runs of the others.\<close>

definition moving_flags :: "real list \<Rightarrow> bool list" where
  "moving_flags ps = map (\<lambda>p. 0 < p) ps"

definition effort_runs :: "real list \<Rightarrow> nat list" where
  "effort_runs ps = map snd (filter (\<lambda>r. fst r) (runs (moving_flags ps)))"

definition rest_runs :: "real list \<Rightarrow> nat list" where
  "rest_runs ps = map snd (filter (\<lambda>r. \<not> fst r) (runs (moving_flags ps)))"

text \<open>The arithmetic mean of a list of durations, 0 for the empty list.\<close>

definition mean_duration :: "nat list \<Rightarrow> real" where
  "mean_duration ds = (if ds = [] then 0 else real (sum_list ds) / real (length ds))"

text \<open>The population variance: the mean of the squared deviations from the mean.\<close>

definition population_variance :: "real list \<Rightarrow> real" where
  "population_variance xs =
     (\<Sum>x\<leftarrow>xs. (x - sum_list xs / real (length xs)) ^ 2) / real (length xs)"

text \<open>The five bands, numbered from 0: band \<open>k\<close> is the half-open interval from
  \<open>50 + 10 k\<close> to \<open>60 + 10 k\<close> per cent of \<open>M\<close>; and the labels of the zones.\<close>

definition in_band :: "real \<Rightarrow> nat \<Rightarrow> real \<Rightarrow> bool" where
  "in_band M k hr = ((50 + 10 * real k) / 100 * M \<le> hr \<and> hr < (60 + 10 * real k) / 100 * M)"

definition zone_label :: "nat \<Rightarrow> string" where
  "zone_label k =
     [''Z1 (50-60%)'', ''Z2 (60-70%)'', ''Z3 (70-80%)'', ''Z4 (80-90%)'', ''Z5 (90-100%)''] ! k"

text \<open>The band a sample is counted in: the first one that contains it.\<close>

definition first_band :: "real \<Rightarrow> nat \<Rightarrow> real \<Rightarrow> bool" where
  "first_band M k hr = (in_band M k hr \<and> (\<forall>j<k. \<not> in_band M j hr))"

text \<open>The segments of a heart-rate string that are not empty, and those among them that
  hold a comma.\<close>

definition nonempty_segments :: "string \<Rightarrow> string list" where
  "nonempty_segments s = filter (\<lambda>seg. seg \<noteq> []) (split_on CHR '';'' s)"

definition comma_segments :: "string \<Rightarrow> string list" where
  "comma_segments s = filter (\<lambda>seg. CHR '','' \<in> set seg) (nonempty_segments s)"

text \<open>The token of a segment: its second comma-separated field as an integer, 0 when
  \<open>pint\<close> rejects it.\<close>

definition hr_token :: "(string \<Rightarrow> int option) \<Rightarrow> string \<Rightarrow> int" where
  "hr_token pint seg = (case pint (split_on CHR '','' seg ! 1) of Some v \<Rightarrow> v | None \<Rightarrow> 0)"

text \<open>The common prefix length of a detail record: the minimum length among the decoded
  timestamp, heart-rate and pace sequences.\<close>

definition common_prefix_length :: "(string \<Rightarrow> int option) \<Rightarrow> json_dict \<Rightarrow> nat" where
  "common_prefix_length pint detail_data =
     Min {length (parse_times detail_data), length (parse_hr pint detail_data),
          length (parse_pace detail_data)}"

section \<open>Sample builtins\<close>

text \<open>Plain decimal fragments of \<^verbatim>\<open>int\<close> and \<^verbatim>\<open>float\<close>, and a clock in UTC.
  They serve to run the definitions on concrete inputs; no general statement depends on
  them. \<open>ascii_int\<close> reads an optional sign and decimal digits between optional white
  space; \<open>ascii_float\<close> reads in addition one optional period among the digits.\<close>

definition digit_of :: "char \<Rightarrow> int option" where
  "digit_of c = (let k = (of_char c :: int) in if 48 \<le> k \<and> k \<le> 57 then Some (k - 48) else None)"

fun digits_value :: "string \<Rightarrow> int \<Rightarrow> int option" where
  "digits_value [] acc = Some acc"
| "digits_value (c # cs) acc =
     (case digit_of c of None \<Rightarrow> None | Some v \<Rightarrow> digits_value cs (10 * acc + v))"

definition unsigned_int :: "string \<Rightarrow> int option" where
  "unsigned_int s = (if s = [] then None else digits_value s 0)"

definition unsigned_float :: "string \<Rightarrow> real option" where
  "unsigned_float s =
     (case split_on CHR ''.'' s of
        [ip] \<Rightarrow> map_option of_int (unsigned_int ip)
      | [ip, fp] \<Rightarrow>
          if ip = [] \<and> fp = [] then None
          else (case (digits_value ip 0, digits_value fp 0) of
                  (Some a, Some b) \<Rightarrow> Some (of_int a + of_int b / 10 ^ length fp)
                | _ \<Rightarrow> None)
      | _ \<Rightarrow> None)"

definition signed :: "(string \<Rightarrow> 'a::uminus option) \<Rightarrow> string \<Rightarrow> 'a option" where
  "signed rd s =
     (case strip s of
        [] \<Rightarrow> None
      | c # cs \<Rightarrow>
          if c = CHR ''-'' then map_option uminus (rd cs)
          else if c = CHR ''+'' then rd cs
          else rd (c # cs))"

definition ascii_int :: "string \<Rightarrow> int option" where
  "ascii_int = signed unsigned_int"

definition ascii_float :: "string \<Rightarrow> real option" where
  "ascii_float = signed unsigned_float"

definition two_digits :: "int \<Rightarrow> string" where
  "two_digits k = [char_of (48 + k div 10), char_of (48 + k mod 10)]"

definition clock_utc :: "int \<Rightarrow> string" where
  "clock_utc secs =
     (let s = secs mod 86400
      in two_digits (s div 3600) @ '':'' @ two_digits (s mod 3600 div 60) @ '':''
         @ two_digits (s mod 60))"

text \<open>A workout of three aligned samples, for running the definitions.\<close>

definition sample_workout :: json_dict where
  "sample_workout =
     [''trackid'' \<mapsto> ''1700000000'', ''total_trips'' \<mapsto> ''20'', ''swim_pool_length'' \<mapsto> ''25'']"

definition sample_detail :: json_dict where
  "sample_detail =
     [''time'' \<mapsto> ''0;1;2;3'', ''heart_rate'' \<mapsto> ''0,100;1,5;2,-3'', ''pace'' \<mapsto> ''1,5;0;2,25'']"

text \<open>A detail record without a pace stream.\<close>

definition sample_detail_no_pace :: json_dict where
  "sample_detail_no_pace = [''time'' \<mapsto> ''0;1'', ''heart_rate'' \<mapsto> ''0,100;1,5'']"

text \<open>What the program computes for the sample workout and its detail record.\<close>

definition sample_metrics :: computed_metrics where
  "sample_metrics =
     \<lparr> total_distance = 500, average_pace = 5 / 4, percentage_moving = 200 / 3,
       percentage_idle = 100 / 3, hr_max = 105, hr_min = 100, hr_start = 100,
       hr_end = 102, hr_variance = 16, avg_effort_duration = 1, avg_rest_duration = 1,
       zone_percentages =
         [(''Z1 (50-60%)'', 100), (''Z2 (60-70%)'', 0), (''Z3 (70-80%)'', 0),
          (''Z4 (80-90%)'', 0), (''Z5 (90-100%)'', 0)] \<rparr>"

definition sample_export :: csv_export where
  "sample_export =
     \<lparr> csv_timestamps = [''22:13:20'', ''22:13:21'', ''22:13:22''],
       csv_hr_variations = [0, 5, - 3],
       csv_current_hr = [100, 105, 102],
       csv_paces = [1.5, 0, 2.25],
       csv_metrics = sample_metrics \<rparr>"

text \<open>A detail record whose pace stream starts with a negative token, what the program
  computes for it, and a second record of that kind.\<close>

definition negative_start_detail :: json_dict where
  "negative_start_detail =
     [''time'' \<mapsto> ''0;1;2'', ''heart_rate'' \<mapsto> ''0,60;1,5;2,5'', ''pace'' \<mapsto> ''-1;2;2'']"

definition negative_start_metrics :: computed_metrics where
  "negative_start_metrics =
     \<lparr> total_distance = 500, average_pace = 1, percentage_moving = 200 / 3,
       percentage_idle = 100 / 3, hr_max = 70, hr_min = 60, hr_start = 60,
       hr_end = 70, hr_variance = 0, avg_effort_duration = 1, avg_rest_duration = 1,
       zone_percentages =
         [(''Z1 (50-60%)'', 0), (''Z2 (60-70%)'', 0), (''Z3 (70-80%)'', 0),
          (''Z4 (80-90%)'', 0), (''Z5 (90-100%)'', 0)] \<rparr>"

definition negative_start_export :: csv_export where
  "negative_start_export =
     \<lparr> csv_timestamps = [''22:13:20'', ''22:13:21'', ''22:13:22''],
       csv_hr_variations = [0, 5, 5],
       csv_current_hr = [60, 65, 70],
       csv_paces = [- 1, 2, 2],
       csv_metrics = negative_start_metrics \<rparr>"

definition negative_then_positive_detail :: json_dict where
  "negative_then_positive_detail =
     [''time'' \<mapsto> ''0;1'', ''heart_rate'' \<mapsto> ''0,60;1,5'', ''pace'' \<mapsto> ''-2;3'']"

section \<open>Reconstruction of the heart rate\<close>

lemma cumulate_acc: "cumulate ds c acc = acc @ cumulate ds c []"
proof (induction ds arbitrary: c acc)
  case Nil show ?case by simp
next
  case (Cons d ds)
  have "cumulate (d # ds) c acc = cumulate ds (c + of_int d) (acc @ [c + of_int d])" by simp
  also have "\<dots> = (acc @ [c + of_int d]) @ cumulate ds (c + of_int d) []" by (rule Cons.IH)
  also have "\<dots> = acc @ cumulate ds (c + of_int d) [c + of_int d]"
    using Cons.IH[of "c + of_int d" "[c + of_int d]"] by simp
  also have "\<dots> = acc @ cumulate (d # ds) c []" by simp
  finally show ?case .
qed

lemma cumulate_step: "cumulate (d # ds) c [c] = c # cumulate ds (c + of_int d) [c + of_int d]"
  using cumulate_acc[of ds "c + of_int d" "[c, c + of_int d]"]
        cumulate_acc[of ds "c + of_int d" "[c + of_int d]"] by simp

lemma length_cumulate: "length (cumulate ds c [c]) = Suc (length ds)"
  by (induction ds arbitrary: c) (simp_all add: cumulate_step del: cumulate.simps(2))

lemma cumulate_hd: "cumulate ds c [c] ! 0 = c"
  by (cases ds) (simp_all add: cumulate_step del: cumulate.simps(2))

lemma cumulate_nth:
  "i < length ds \<Longrightarrow> cumulate ds c [c] ! Suc i = cumulate ds c [c] ! i + of_int (ds ! i)"
proof (induction ds arbitrary: c i)
  case Nil then show ?case by simp
next
  case (Cons d ds)
  show ?case
  proof (cases i)
    case 0
    then show ?thesis by (simp add: cumulate_step cumulate_hd del: cumulate.simps(2))
  next
    case (Suc j)
    with Cons.prems have "j < length ds" by simp
    from Cons.IH[OF this, of "c + of_int d"] Suc show ?thesis
      by (simp add: cumulate_step del: cumulate.simps(2))
  qed
qed

lemma current_hr_unfold:
  "hv \<noteq> [] \<Longrightarrow> current_hr_of hv n =
     take n (cumulate (tl hv) (of_int (hd hv)) [of_int (hd hv)]
       @ replicate n (last (cumulate (tl hv) (of_int (hd hv)) [of_int (hd hv)])))"
  by (cases hv) (auto simp: current_hr_of_def base_hr_of_def hr_differences_of_def Let_def drop_Suc)


lemma current_hr_example: "current_hr_of [70, 5, - 3] 5 = [70, 75, 72, 72, 72]"
  by (simp add: current_hr_of_def base_hr_of_def hr_differences_of_def Let_def eval_nat_numeral)

text \<open>
  Claim C1. For heart-rate tokens that are not empty and a target length \<open>n > 0\<close>, the
  absolute series has length \<open>n\<close>; its element 0 is the first token; within the decoded
  range, element \<open>i > 0\<close> is element \<open>i - 1\<close> plus token \<open>i\<close>; past the decoded range every
  element is the last computed value. The tokens \<open>[70, 5, -3]\<close> with target length 5 give
  \<open>[70, 75, 72, 72, 72]\<close>.
\<close>

theorem hr_reconstruction:
  "(hr_values \<noteq> [] \<and> 0 < n \<longrightarrow>
     length (current_hr_of hr_values n) = n
   \<and> current_hr_of hr_values n ! 0 = of_int (hr_values ! 0)
   \<and> (\<forall>i. 0 < i \<and> i < n \<and> i < length hr_values \<longrightarrow>
          current_hr_of hr_values n ! i
            = current_hr_of hr_values n ! (i - 1) + of_int (hr_values ! i))
   \<and> (\<forall>i. length hr_values \<le> i \<and> i < n \<longrightarrow>
          current_hr_of hr_values n ! i = current_hr_of hr_values n ! (length hr_values - 1)))
   \<and> current_hr_of [70, 5, - 3] 5 = [70, 75, 72, 72, 72]"
proof -
  have general: "hr_values \<noteq> [] \<and> 0 < n \<longrightarrow>
       length (current_hr_of hr_values n) = n
     \<and> current_hr_of hr_values n ! 0 = of_int (hr_values ! 0)
     \<and> (\<forall>i. 0 < i \<and> i < n \<and> i < length hr_values \<longrightarrow>
            current_hr_of hr_values n ! i
              = current_hr_of hr_values n ! (i - 1) + of_int (hr_values ! i))
     \<and> (\<forall>i. length hr_values \<le> i \<and> i < n \<longrightarrow>
            current_hr_of hr_values n ! i = current_hr_of hr_values n ! (length hr_values - 1))"
  proof (intro impI, elim conjE)
  assume ne: "hr_values \<noteq> []" and n: "0 < n"
  define L where "L = cumulate (tl hr_values) (of_int (hd hr_values)) [of_int (hd hr_values)]"
  have len: "length L = length hr_values"
    using ne by (simp add: L_def length_cumulate)
  have cur: "current_hr_of hr_values n = take n (L @ replicate n (last L))"
    using ne by (simp add: current_hr_unfold L_def)
  have Lne: "L \<noteq> []" using len ne by auto
  have inside: "current_hr_of hr_values n ! i = L ! i" if "i < n" "i < length hr_values" for i
    using that len by (simp add: cur nth_append)
  have outside: "current_hr_of hr_values n ! i = last L" if "i < n" "length hr_values \<le> i" for i
    using that len by (simp add: cur nth_append)
  have c1: "length (current_hr_of hr_values n) = n" by (simp add: cur)
  have c2: "current_hr_of hr_values n ! 0 = of_int (hr_values ! 0)"
    using inside[of 0] n ne by (simp add: L_def cumulate_hd hd_conv_nth)
  have c3: "current_hr_of hr_values n ! i
            = current_hr_of hr_values n ! (i - 1) + of_int (hr_values ! i)"
    if "0 < i" "i < n" "i < length hr_values" for i
  proof -
    from that(1) obtain j where j: "i = Suc j" by (cases i) auto
    have "j < length (tl hr_values)" using that(3) j by simp
    from cumulate_nth[OF this, of "of_int (hd hr_values)"]
    have "L ! Suc j = L ! j + of_int (tl hr_values ! j)" by (simp add: L_def)
    moreover have "tl hr_values ! j = hr_values ! i" using j that(3) by (simp add: nth_tl)
    ultimately show ?thesis using inside[of i] inside[of j] that j by simp
  qed
  have c4: "current_hr_of hr_values n ! i = current_hr_of hr_values n ! (length hr_values - 1)"
    if "length hr_values \<le> i" "i < n" for i
  proof -
    have "length hr_values - 1 < n" "length hr_values - 1 < length hr_values"
      using that ne by auto
    then have "current_hr_of hr_values n ! (length hr_values - 1) = L ! (length hr_values - 1)"
      by (rule inside)
    also have "\<dots> = last L" using Lne len by (simp add: last_conv_nth)
    finally show ?thesis using outside[of i] that by simp
  qed
  show "length (current_hr_of hr_values n) = n
   \<and> current_hr_of hr_values n ! 0 = of_int (hr_values ! 0)
   \<and> (\<forall>i. 0 < i \<and> i < n \<and> i < length hr_values \<longrightarrow>
          current_hr_of hr_values n ! i
            = current_hr_of hr_values n ! (i - 1) + of_int (hr_values ! i))
   \<and> (\<forall>i. length hr_values \<le> i \<and> i < n \<longrightarrow>
          current_hr_of hr_values n ! i = current_hr_of hr_values n ! (length hr_values - 1))"
    using c1 c2 c3 c4 by blast
  qed
  show ?thesis
    using general current_hr_example by blast
qed

theorem hr_reconstruction_witness:
  "[70, 5, - 3] \<noteq> ([] :: int list) \<and> (0 :: nat) < 5
   \<and> length (current_hr_of [70, 5, - 3] 5) = 5
   \<and> current_hr_of [70, 5, - 3] 5 ! 0 = 70
   \<and> current_hr_of [70, 5, - 3] 5 ! 2 = current_hr_of [70, 5, - 3] 5 ! 1 + (- 3)
   \<and> current_hr_of [70, 5, - 3] 5 ! 4 = current_hr_of [70, 5, - 3] 5 ! 2"
  using hr_reconstruction [of "[70, 5, - 3]" 5]
  by (simp add: current_hr_example)

section \<open>Effort and rest runs\<close>

lemma runs_Cons_shape: "\<exists>k rs. runs (b # bs) = (b, Suc k) # rs"
  by (cases "runs bs") (auto split: if_splits)

lemma runs_replicate: "runs (replicate (Suc d) b) = [(b, Suc d)]"
  by (induction d) auto

lemma runs_replicate_change:
  "runs (replicate (Suc d) b @ (\<not> b) # bs) = (b, Suc d) # runs ((\<not> b) # bs)"
proof (induction d)
  case 0
  obtain k rs where "runs ((\<not> b) # bs) = (\<not> b, Suc k) # rs"
    using runs_Cons_shape by blast
  then show ?case by simp
next
  case (Suc d)
  then show ?case by simp
qed

lemma runs_expand: "concat (map (\<lambda>(b, k). replicate k b) (runs bs)) = bs"
proof (induction bs)
  case Nil show ?case by simp
next
  case (Cons b bs)
  then show ?case by (cases "runs bs") (auto split: if_splits)
qed

lemma runs_positive: "(b, k) \<in> set (runs bs) \<Longrightarrow> 1 \<le> k"
proof (induction bs arbitrary: b k)
  case Nil then show ?case by simp
next
  case (Cons a bs)
  then show ?case by (cases "runs bs") (auto split: if_splits)
qed

lemma runs_alternate:
  "Suc i < length (runs bs) \<Longrightarrow> fst (runs bs ! i) \<noteq> fst (runs bs ! Suc i)"
proof (induction bs arbitrary: i)
  case Nil then show ?case by simp
next
  case (Cons a bs)
  show ?case
  proof (cases "runs bs")
    case Nil with Cons.prems show ?thesis by simp
  next
    case (Cons r rs)
    obtain b' k where r: "r = (b', k)" by (cases r)
    show ?thesis
    proof (cases "b' = a")
      case True
      with Cons r have eq: "runs (a # bs) = (a, Suc k) # rs" by simp
      show ?thesis
      proof (cases i)
        case 0
        with Cons.prems eq have "Suc 0 < length (runs bs)" using Cons by simp
        from Cons.IH[OF this] show ?thesis using eq Cons r True 0 by simp
      next
        case (Suc j)
        with Cons.prems eq have "Suc (Suc j) < length (runs bs)" using Cons by simp
        from Cons.IH[OF this] show ?thesis using eq Cons r Suc by simp
      qed
    next
      case False
      with Cons r have eq: "runs (a # bs) = (a, 1) # runs bs" by simp
      show ?thesis
      proof (cases i)
        case 0
        then show ?thesis using eq Cons r False by simp
      next
        case (Suc j)
        with Cons.prems eq have "Suc j < length (runs bs)" by simp
        from Cons.IH[OF this] show ?thesis using eq Suc by simp
      qed
    qed
  qed
qed

lemma loop_runs:
  "flush (segment_loop ps st (Suc d) e r) =
     (e @ map snd (filter (\<lambda>x. fst x) (runs (replicate (Suc d) (st = Effort) @ moving_flags ps))),
      r @ map snd (filter (\<lambda>x. \<not> fst x) (runs (replicate (Suc d) (st = Effort) @ moving_flags ps))))"
proof (induction ps arbitrary: st d e r)
  case Nil
  show ?case by (simp add: moving_flags_def runs_replicate del: replicate.simps runs.simps)
next
  case (Cons p ps)
  have same: "replicate (Suc d) b @ b # bs = replicate (Suc (Suc d)) b @ bs" for b :: bool and bs
    by (simp add: replicate_app_Cons_same)
  show ?case
  proof (cases "(0 < p) = (st = Effort)")
    case True
    then have step: "segment_loop (p # ps) st (Suc d) e r = segment_loop ps st (Suc (Suc d)) e r"
      by (cases st) auto
    have flags: "replicate (Suc d) (st = Effort) @ moving_flags (p # ps)
        = replicate (Suc (Suc d)) (st = Effort) @ moving_flags ps"
      using True same[of "st = Effort" "moving_flags ps"] by (simp add: moving_flags_def)
    show ?thesis unfolding step flags by (rule Cons.IH)
  next
    case False
    then have neg: "(0 < p) = (\<not> (st = Effort))" by blast
    have flags: "runs (replicate (Suc d) (st = Effort) @ moving_flags (p # ps))
        = (st = Effort, Suc d) # runs (replicate (Suc 0) (0 < p) @ moving_flags ps)"
      using runs_replicate_change[of d "st = Effort" "moving_flags ps"] neg
      by (simp add: moving_flags_def del: runs.simps)
    show ?thesis
    proof (cases st)
      case Idle
      with False have p: "0 < p" by simp
      then have step: "segment_loop (p # ps) st (Suc d) e r = segment_loop ps Effort (Suc 0) e (r @ [Suc d])"
        using Idle by simp
      show ?thesis unfolding step flags using Cons.IH[of Effort 0 e "r @ [Suc d]"] Idle p
        by (simp del: runs.simps replicate.simps)
    next
      case Effort
      with False have p: "\<not> 0 < p" by simp
      then have step: "segment_loop (p # ps) st (Suc d) e r = segment_loop ps Idle (Suc 0) (e @ [Suc d]) r"
        using Effort by simp
      show ?thesis unfolding step flags using Cons.IH[of Idle 0 "e @ [Suc d]" r] Effort p
        by (simp del: runs.simps replicate.simps)
    qed
  qed
qed

lemma segment_runs:
  assumes "ps \<noteq> []" "0 \<le> ps ! 0"
  shows "segment ps = Inr (effort_runs ps, rest_runs ps)"
proof -
  obtain p qs where ps: "ps = p # qs" using assms(1) by (cases ps) auto
  with assms(2) have p: "0 \<le> p" by simp
  have first: "segment_loop ps (initial_state ps) 0 [] [] = segment_loop qs (initial_state ps) (Suc 0) [] []"
    using p by (auto simp: ps initial_state_def)
  have flag: "(initial_state ps = Effort) = (0 < p)"
    using p by (cases "p = 0") (simp_all add: ps initial_state_def)
  have flags: "replicate (Suc 0) (initial_state ps = Effort) @ moving_flags qs = moving_flags ps"
    unfolding flag by (simp add: ps moving_flags_def)
  have "flush (segment_loop ps (initial_state ps) 0 [] []) = (effort_runs ps, rest_runs ps)"
    unfolding first effort_runs_def rest_runs_def flags[symmetric]
    using loop_runs[of qs "initial_state ps" 0 "[]" "[]"] by simp
  then show ?thesis using assms(1) by (simp add: segment_def)
qed

lemma foldl_plus_shift: "foldl (+) (a :: 'a :: comm_monoid_add) xs = a + sum_list xs"
  by (induction xs arbitrary: a) (simp_all add: add.assoc)

lemma py_sum_eq: "py_sum xs = sum_list xs"
  by (simp add: py_sum_def foldl_plus_shift)

lemma avg_duration_mean: "avg_duration ds = mean_duration ds"
  by (simp add: avg_duration_def mean_duration_def py_sum_eq)

lemma loop_sum:
  "flush (segment_loop ps st d e r) = (e', r') \<Longrightarrow>
     sum_list e' + sum_list r' = sum_list e + sum_list r + d + length ps"
  by (induction ps st d e r rule: segment_loop.induct) (auto split: if_splits)

lemma flush_nonempty: "flush x = (e', r') \<Longrightarrow> e' \<noteq> [] \<or> r' \<noteq> []"
  by (cases x) (auto split: if_splits)

lemma segment_total:
  assumes "ps \<noteq> []"
  shows "\<exists>e r. segment ps = Inr (e, r) \<and> sum_list e + sum_list r = length ps
           \<and> (e \<noteq> [] \<or> r \<noteq> [])"
proof -
  obtain e r where fl: "flush (segment_loop ps (initial_state ps) 0 [] []) = (e, r)"
    by (cases "flush (segment_loop ps (initial_state ps) 0 [] [])")
  from loop_sum[OF fl] flush_nonempty[OF fl] fl assms show ?thesis
    by (simp add: segment_def)
qed

lemma runs_all_moving:
  assumes "ps \<noteq> []" "\<forall>p\<in>set ps. 0 < p"
  shows "effort_runs ps = [length ps]" "rest_runs ps = []"
proof -
  have "moving_flags ps = replicate (length ps) True"
    using assms(2) by (induction ps) (simp_all add: moving_flags_def)
  moreover obtain k where "length ps = Suc k" using assms(1) by (cases ps) auto
  ultimately have "runs (moving_flags ps) = [(True, length ps)]"
    using runs_replicate[of k True] by simp
  then show "effort_runs ps = [length ps]" "rest_runs ps = []"
    by (simp_all add: effort_runs_def rest_runs_def)
qed

lemma run_lengths_positive:
  "d \<in> set (effort_runs ps) \<union> set (rest_runs ps) \<Longrightarrow> 1 \<le> d"
  using runs_positive by (fastforce simp: effort_runs_def rest_runs_def)

lemma metrics_averages:
  assumes "compute_metrics pfloat workout hr_vars cur_hr ps n = Inr cm"
  shows "\<exists>e r. segment ps = Inr (e, r) \<and> avg_effort_duration cm = mean_duration e
           \<and> avg_rest_duration cm = mean_duration r"
  using assms
  by (auto simp: compute_metrics_def avg_duration_mean split: list.splits if_splits sum.splits)

lemma segment_example: "segment [0, 0, 5, 5, 5, 0] = Inr ([3], [2, 1])"
  by (simp add: segment_def initial_state_def)

lemma mean_examples: "mean_duration [3] = 3" "mean_duration [2, 1] = 1.5" "mean_duration [] = 0"
  by (simp_all add: mean_duration_def)

text \<open>
  On a pace series that is not empty the segmenter starts idle iff the first sample is 0.
  When the first sample is not negative, as in every pace series of the data model of the
  specification, \<open>effort_durations\<close> holds the lengths of the maximal runs of samples with
  positive pace and \<open>rest_durations\<close> those of the maximal runs of the other samples, in
  order. The reported averages are the arithmetic means of the two lists, 0 for an empty
  list. The series \<open>[0,0,5,5,5,0]\<close> gives rest durations \<open>[2,1]\<close> and effort durations
  \<open>[3]\<close> with means 1.5 and 3; a series of \<open>N\<close> positive samples gives effort durations
  \<open>[N]\<close>, no rest durations, and the mean 0.
\<close>

theorem segmenter_runs:
  "(ps \<noteq> [] \<longrightarrow> (initial_state ps = Idle) = (ps ! 0 = 0))
   \<and> (ps \<noteq> [] \<and> 0 \<le> ps ! 0 \<longrightarrow> segment ps = Inr (effort_runs ps, rest_runs ps))
   \<and> (compute_metrics pfloat workout hr_vars cur_hr ps n = Inr cm \<longrightarrow>
        (\<exists>e r. segment ps = Inr (e, r) \<and> avg_effort_duration cm = mean_duration e
               \<and> avg_rest_duration cm = mean_duration r))
   \<and> (segment [0, 0, 5, 5, 5, 0] = Inr ([3], [2, 1])
        \<and> mean_duration [3] = 3 \<and> mean_duration [2, 1] = 1.5)
   \<and> (ps \<noteq> [] \<and> (\<forall>p\<in>set ps. 0 < p) \<longrightarrow>
        segment ps = Inr ([length ps], []) \<and> mean_duration [] = 0)"
proof -
  have a: "(initial_state ps = Idle) = (ps ! 0 = 0)"
    by (simp add: initial_state_def)
  have b: "segment ps = Inr (effort_runs ps, rest_runs ps)" if "ps \<noteq> []" "0 \<le> ps ! 0"
    using that by (rule segment_runs)
  have c: "\<exists>e r. segment ps = Inr (e, r) \<and> avg_effort_duration cm = mean_duration e
               \<and> avg_rest_duration cm = mean_duration r"
    if "compute_metrics pfloat workout hr_vars cur_hr ps n = Inr cm"
    using that by (rule metrics_averages)
  have d: "segment ps = Inr ([length ps], [])" if ne: "ps \<noteq> []" and pos: "\<forall>p\<in>set ps. 0 < p"
  proof -
    from ne pos have "0 \<le> ps ! 0" by (cases ps) auto
    with ne have "segment ps = Inr (effort_runs ps, rest_runs ps)" by (rule segment_runs)
    with runs_all_moving[OF ne pos] show ?thesis by simp
  qed
  show ?thesis
    using a b c d segment_example mean_examples by blast
qed

lemma segmenter_runs_example:
  "([1.5, 0] \<noteq> ([] :: real list) \<and> (0 :: real) \<le> [1.5, 0] ! 0)
   \<and> compute_metrics ascii_float sample_workout [0, 5] [100, 105] [1.5, 0] 2
       = Inr \<lparr> total_distance = 500, average_pace = 3 / 4, percentage_moving = 50,
               percentage_idle = 50, hr_max = 105, hr_min = 100, hr_start = 100,
               hr_end = 105, hr_variance = 0, avg_effort_duration = 1,
               avg_rest_duration = 1,
               zone_percentages =
                 [(''Z1 (50-60%)'', 100), (''Z2 (60-70%)'', 0), (''Z3 (70-80%)'', 0),
                  (''Z4 (80-90%)'', 0), (''Z5 (90-100%)'', 0)] \<rparr>
   \<and> segment [1.5, 0] = Inr (effort_runs [1.5, 0], rest_runs [1.5, 0])
   \<and> (\<exists>e r. segment [1.5, 0] = Inr (e, r) \<and> mean_duration e = 1 \<and> mean_duration r = 1)
   \<and> [2, 3] \<noteq> ([] :: real list)
   \<and> segment [2, 3] = Inr ([2], [])"
proof -
  let ?cm = "\<lparr> total_distance = 500, average_pace = 3 / 4, percentage_moving = 50,
               percentage_idle = 50, hr_max = 105, hr_min = 100, hr_start = 100,
               hr_end = 105, hr_variance = 0, avg_effort_duration = 1,
               avg_rest_duration = 1,
               zone_percentages =
                 [(''Z1 (50-60%)'', 100), (''Z2 (60-70%)'', 0), (''Z3 (70-80%)'', 0),
                  (''Z4 (80-90%)'', 0), (''Z5 (90-100%)'', 0)] \<rparr>"
  have m: "compute_metrics ascii_float sample_workout [0, 5] [100, 105] [1.5, 0] 2 = Inr ?cm"
    by code_simp
  have h1: "[1.5, 0] \<noteq> ([] :: real list) \<and> (0 :: real) \<le> [1.5, 0] ! 0"
    by simp
  note t1 = segmenter_runs [of "[1.5, 0]" ascii_float sample_workout "[0, 5]" "[100, 105]" 2 ?cm]
  have r1: "segment [1.5, 0] = Inr (effort_runs [1.5, 0], rest_runs [1.5, 0])"
    using t1 h1 by blast
  have "\<exists>e r. segment [1.5, 0] = Inr (e, r) \<and> avg_effort_duration ?cm = mean_duration e
          \<and> avg_rest_duration ?cm = mean_duration r"
    using t1 m by blast
  then have r3: "\<exists>e r. segment [1.5, 0] = Inr (e, r) \<and> mean_duration e = 1 \<and> mean_duration r = 1"
    by simp
  have h2: "[2, 3] \<noteq> ([] :: real list) \<and> (\<forall>p\<in>set [2, 3 :: real]. 0 < p)"
    by simp
  have "segment [2, 3] = Inr ([length [2, 3 :: real]], [])"
    using segmenter_runs [of "[2, 3]" ascii_float sample_workout "[0, 5]" "[100, 105]" 2 ?cm] h2
    by blast
  then have r2: "segment [2, 3] = Inr ([2], [])"
    by simp
  from h1 m r1 r3 h2 r2 show ?thesis
    by blast
qed

text \<open>
  For every pace series of length \<open>n > 0\<close> the effort and the rest durations sum to \<open>n\<close>
  and one of the two lists is not empty; when the first sample is not negative, every
  recorded duration is at least 1.
\<close>

theorem segmenter_partition:
  "ps \<noteq> [] \<longrightarrow>
     (\<exists>e r. segment ps = Inr (e, r)
        \<and> sum_list e + sum_list r = length ps
        \<and> (e \<noteq> [] \<or> r \<noteq> [])
        \<and> (0 \<le> ps ! 0 \<longrightarrow> (\<forall>d\<in>set e \<union> set r. 1 \<le> d)))"
proof
  assume ne: "ps \<noteq> []"
  from segment_total[OF ne] obtain e r where
    seg: "segment ps = Inr (e, r)" and total: "sum_list e + sum_list r = length ps"
    and some: "e \<noteq> [] \<or> r \<noteq> []" by blast
  have "\<forall>d\<in>set e \<union> set r. 1 \<le> d" if "0 \<le> ps ! 0"
  proof -
    from segment_runs[OF ne that] seg have "e = effort_runs ps" "r = rest_runs ps" by simp_all
    then show ?thesis using run_lengths_positive[of _ ps] by blast
  qed
  with seg total some show "\<exists>e r. segment ps = Inr (e, r)
        \<and> sum_list e + sum_list r = length ps
        \<and> (e \<noteq> [] \<or> r \<noteq> [])
        \<and> (0 \<le> ps ! 0 \<longrightarrow> (\<forall>d\<in>set e \<union> set r. 1 \<le> d))" by blast
qed

lemma segmenter_partition_example:
  "[0, 0, 5, 5, 5, 0] \<noteq> ([] :: real list) \<and> (0 :: real) \<le> [0, 0, 5, 5, 5, 0] ! 0
   \<and> segment [0, 0, 5, 5, 5, 0] = Inr ([3], [2, 1])
   \<and> sum_list [3] + sum_list [2, 1] = length [0, 0, 5, 5, 5, 0 :: real]
   \<and> (1 :: nat) \<le> 3 \<and> (1 :: nat) \<le> 2 \<and> (1 :: nat) \<le> 1"
  using segmenter_partition [of "[0, 0, 5, 5, 5, 0]"]
  by (simp add: segment_example)

section \<open>Heart-rate zones\<close>

lemma increment_map_of:
  "map_of (increment z cs) z' = (if z' = z then map_option Suc (map_of cs z) else map_of cs z')"
  by (induction cs) auto

lemma increment_keys: "map fst (increment z cs) = map fst cs"
  by (induction cs) auto

lemma increment_sum:
  "z \<in> fst ` set cs \<Longrightarrow> sum_list (map snd (increment z cs)) = Suc (sum_list (map snd cs))"
  by (induction cs) force+

lemma find_zone_key: "find_zone zs h = Some z \<Longrightarrow> z \<in> fst ` set zs"
  by (induction zs h rule: find_zone.induct) (auto split: if_splits)

lemma count_zones_map_of:
  "map_of (count_zones zs hrs cs) z =
     map_option (\<lambda>c. c + length (filter (\<lambda>h. find_zone zs h = Some z) hrs)) (map_of cs z)"
proof (induction hrs arbitrary: cs)
  case Nil
  show ?case by (cases "map_of cs z") simp_all
next
  case (Cons h hrs)
  show ?case
  proof (cases "find_zone zs h")
    case None
    then show ?thesis using Cons.IH[of cs] by simp
  next
    case (Some z')
    then show ?thesis using Cons.IH[of "increment z' cs"]
      by (cases "map_of cs z") (auto simp: increment_map_of)
  qed
qed

lemma count_zones_keys: "map fst (count_zones zs hrs cs) = map fst cs"
  by (induction hrs arbitrary: cs) (auto simp: increment_keys split: option.splits)

lemma count_zones_sum:
  "fst ` set zs \<subseteq> fst ` set cs \<Longrightarrow>
     sum_list (map snd (count_zones zs hrs cs))
       = sum_list (map snd cs) + length (filter (\<lambda>h. find_zone zs h \<noteq> None) hrs)"
proof (induction hrs arbitrary: cs)
  case Nil show ?case by simp
next
  case (Cons h hrs)
  show ?case
  proof (cases "find_zone zs h")
    case None
    then show ?thesis using Cons.IH[OF Cons.prems] by simp
  next
    case (Some z')
    then have mem: "z' \<in> fst ` set cs" using find_zone_key Cons.prems by blast
    have "fst ` set zs \<subseteq> fst ` set (increment z' cs)"
      using Cons.prems increment_keys[of z' cs] by (metis image_set)
    from Cons.IH[OF this] Some mem show ?thesis by (simp add: increment_sum)
  qed
qed

lemma count_zones_unchanged:
  "\<forall>h\<in>set hrs. find_zone zs h = None \<Longrightarrow> count_zones zs hrs cs = cs"
  by (induction hrs arbitrary: cs) auto

lemma find_zone_bands:
  "find_zone (hr_zones M) h =
     (if in_band M 0 h then Some (zone_label 0)
      else if in_band M 1 h then Some (zone_label 1)
      else if in_band M 2 h then Some (zone_label 2)
      else if in_band M 3 h then Some (zone_label 3)
      else if in_band M 4 h then Some (zone_label 4)
      else None)"
  by (simp add: hr_zones_def in_band_def zone_label_def)

lemma less_five: "k < 5 \<longleftrightarrow> k = 0 \<or> k = 1 \<or> k = 2 \<or> k = 3 \<or> k = (4::nat)"
  by arith

lemma zone_label_inj: "j < 5 \<Longrightarrow> k < 5 \<Longrightarrow> zone_label j = zone_label k \<longleftrightarrow> j = k"
  by (auto simp: less_five zone_label_def)

lemma find_zone_first:
  "k < 5 \<Longrightarrow> find_zone (hr_zones M) h = Some (zone_label k) \<longleftrightarrow> first_band M k h"
proof -
  assume k: "k < 5"
  have l1: "(\<forall>j<Suc 0. P j) = P 0" for P by auto
  have l2: "(\<forall>j<2. P j) = (P 0 \<and> P 1)" for P :: "nat \<Rightarrow> bool"
    by (auto simp: numeral_2_eq_2 less_Suc_eq)
  have l3: "(\<forall>j<3. P j) = (P 0 \<and> P 1 \<and> P 2)" for P :: "nat \<Rightarrow> bool"
    by (auto simp: numeral_3_eq_3 numeral_2_eq_2 less_Suc_eq)
  have l4: "(\<forall>j<4. P j) = (P 0 \<and> P 1 \<and> P 2 \<and> P 3)" for P :: "nat \<Rightarrow> bool"
  proof -
    have "(j < 4) = (j = 0 \<or> j = 1 \<or> j = 2 \<or> j = 3)" for j :: nat by arith
    then show ?thesis by auto
  qed
  from k consider "k = 0" | "k = 1" | "k = 2" | "k = 3" | "k = 4" by (auto simp: less_five)
  then show ?thesis
  proof cases
    case 1 then show ?thesis by (simp add: find_zone_bands first_band_def zone_label_inj)
  next
    case 2 then show ?thesis by (simp add: find_zone_bands first_band_def zone_label_inj l1)
  next
    case 3 then show ?thesis by (simp add: find_zone_bands first_band_def zone_label_inj l2)
  next
    case 4 then show ?thesis by (simp add: find_zone_bands first_band_def zone_label_inj l3)
  next
    case 5 then show ?thesis by (simp add: find_zone_bands first_band_def zone_label_inj l4)
  qed
qed

lemma find_zone_some: "find_zone (hr_zones M) h \<noteq> None \<longleftrightarrow> (\<exists>k<5. in_band M k h)"
proof -
  have "(\<exists>k<5. in_band M k h)
      = (in_band M 0 h \<or> in_band M 1 h \<or> in_band M 2 h \<or> in_band M 3 h \<or> in_band M 4 h)"
    unfolding less_five by blast
  then show ?thesis by (simp add: find_zone_bands)
qed

lemma outside_no_band: "h < 0.5 * M \<or> M \<le> h \<Longrightarrow> k < 5 \<Longrightarrow> \<not> in_band M k h"
  by (auto simp: less_five in_band_def)

lemma first_band_unique: "first_band M j h \<Longrightarrow> first_band M k h \<Longrightarrow> j = k"
  by (metis first_band_def linorder_neqE_nat)

lemma initial_counts:
  "map (\<lambda>(zone, band). (zone, 0 :: nat)) (hr_zones M) = map (\<lambda>k. (zone_label k, 0)) [0..<5]"
  by (simp add: hr_zones_def zone_label_def upt_rec[of _ "numeral n" for n] upt_rec[of _ "Suc n" for n])

lemma zone_counts_keys: "map fst (zone_counts_of M hrs) = map zone_label [0..<5]"
  by (simp add: zone_counts_of_def count_zones_keys initial_counts comp_def del: upt.simps)

lemma zone_counts_lookup:
  assumes "k < 5"
  shows "map_of (zone_counts_of M hrs) (zone_label k) = Some (length (filter (first_band M k) hrs))"
proof -
  have init: "map_of (map (\<lambda>(zone, band). (zone, 0 :: nat)) (hr_zones M)) (zone_label k) = Some 0"
    using assms by (auto simp: less_five hr_zones_def zone_label_def)
  have "filter (\<lambda>h. find_zone (hr_zones M) h = Some (zone_label k)) hrs = filter (first_band M k) hrs"
    using find_zone_first[OF assms] by simp
  then show ?thesis
    by (simp add: zone_counts_of_def count_zones_map_of init)
qed

lemma zone_counts_total:
  "sum_list (map snd (zone_counts_of M hrs)) = length (filter (\<lambda>h. \<exists>k<5. in_band M k h) hrs)"
proof -
  have "fst ` set (hr_zones M) \<subseteq> fst ` set (map (\<lambda>(zone, band). (zone, 0 :: nat)) (hr_zones M))"
    by (simp add: hr_zones_def)
  from count_zones_sum[OF this, of hrs]
  have "sum_list (map snd (zone_counts_of M hrs))
      = sum_list (map snd (map (\<lambda>(zone, band). (zone, 0 :: nat)) (hr_zones M)))
          + length (filter (\<lambda>h. find_zone (hr_zones M) h \<noteq> None) hrs)"
    by (simp add: zone_counts_of_def)
  also have "sum_list (map snd (map (\<lambda>(zone, band). (zone, 0 :: nat)) (hr_zones M))) = 0"
    by (simp add: hr_zones_def)
  finally show ?thesis unfolding find_zone_some by simp
qed

lemma zone_percentages_lookup:
  "map_of (zone_percentages_of M hrs n) z
     = map_option (\<lambda>c. real c / real n * 100) (map_of (zone_counts_of M hrs) z)"
  by (simp add: zone_percentages_of_def map_of_map)

lemma zone_percentages_outside:
  assumes "\<forall>h\<in>set hrs. h < 0.5 * M \<or> M \<le> h"
  shows "sum_list (map snd (zone_percentages_of M hrs n)) = 0"
proof -
  have "\<forall>h\<in>set hrs. find_zone (hr_zones M) h = None"
  proof
    fix h assume "h \<in> set hrs"
    with assms have "h < 0.5 * M \<or> M \<le> h" by blast
    then have "\<not> (\<exists>k<5. in_band M k h)" using outside_no_band by blast
    then show "find_zone (hr_zones M) h = None" using find_zone_some by blast
  qed
  then have "zone_counts_of M hrs = map (\<lambda>(zone, band). (zone, 0)) (hr_zones M)"
    by (simp add: zone_counts_of_def count_zones_unchanged)
  then show ?thesis by (simp add: zone_percentages_of_def hr_zones_def)
qed

section \<open>The sample workout\<close>

lemma sample_metrics_eval:
  "compute_metrics ascii_float sample_workout [0, 5, - 3] [100, 105, 102] [1.5, 0, 2.25] 3
     = Inr sample_metrics"
  by code_simp

lemma sample_parse:
  "parse_times sample_detail = [''0'', ''1'', ''2'', ''3'']"
  "parse_hr ascii_int sample_detail = [100, 5, - 3]"
  "parse_pace sample_detail = [''1.5'', ''0'', ''2.25'']"
  by code_simp+

lemma sample_clock:
  "clock_utc 1700000000 = ''22:13:20''" "clock_utc 1700000001 = ''22:13:21''"
  "clock_utc 1700000002 = ''22:13:22''"
  by code_simp+

lemma sample_steps:
  "start_time_of ascii_int (Some ''1700000000'') = Inr 1700000000"
  "current_hr_of [100, 5, - 3] 3 = [100, 105, 102]"
  "hr_variations_of [100, 5, - 3] 3 = [0, 5, - 3]"
  "processed_pace_of ascii_float [''1.5'', ''0'', ''2.25''] 3 = [1.5, 0, 2.25]"
  by code_simp+

lemma sample_timestamps:
  "generate_timestamps clock_utc 1700000000 3 = [''22:13:20'', ''22:13:21'', ''22:13:22'']"
  by (simp add: generate_timestamps_def sample_clock
        upt_rec[of _ "numeral n" for n] upt_rec[of _ "Suc n" for n])

lemma sample_process:
  "process_workout ascii_int ascii_float clock_utc sample_workout sample_detail
     = Inr (Exported sample_export)"
proof -
  have n: "num_points_of [''0'', ''1'', ''2'', ''3''] [100, 5, - 3] [''1.5'', ''0'', ''2.25''] = 3"
    by (simp add: num_points_of_def)
  have tid: "sample_workout ''trackid'' = Some ''1700000000''"
    by (simp add: sample_workout_def)
  show ?thesis
    unfolding process_workout_def Let_def sample_parse n tid sample_steps sample_metrics_eval
    by (simp add: sample_timestamps sample_export_def)
qed

lemma sample_rows: "time_series_rows sample_export =
   Inr [(''22:13:20'', 0, (0, 0), 0, 100, 1.5), (''22:13:21'', 1, (0, 1), 5, 105, 0),
        (''22:13:22'', 2, (0, 2), - 3, 102, 2.25)]"
  by (simp add: time_series_rows_def sample_export_def py_index_def upt_rec[of _ "numeral n" for n] upt_rec[of _ "Suc n" for n])

section \<open>Heart-rate variance\<close>

lemma variance_unfold:
  "1 < length vs \<Longrightarrow> hr_variance_of vs = population_variance (map of_int (drop 1 vs))"
  by (simp add: hr_variance_of_def population_variance_def py_sum_eq Let_def)

lemma variance_single: "population_variance [x] = 0"
  by (simp add: population_variance_def)

lemma variance_few: "length (drop 1 vs) < 2 \<Longrightarrow> hr_variance_of vs = 0"
proof (cases "1 < length vs")
  case False
  then show ?thesis by (simp add: hr_variance_of_def)
next
  case True
  assume "length (drop 1 vs) < 2"
  with True have "length (drop 1 vs) = Suc 0" by simp
  then obtain d where "drop 1 vs = [d]" unfolding length_Suc_conv by auto
  with variance_unfold[OF True] show ?thesis by (simp add: variance_single)
qed

lemma variance_example: "hr_variance_of [0, 2, - 2, 2, - 2] = 4"
  by (simp add: hr_variance_of_def py_sum_def Let_def)

lemma metrics_variance:
  "compute_metrics pfloat workout hr_vars cur_hr ps n = Inr cm \<Longrightarrow> hr_variance cm = hr_variance_of hr_vars"
  by (auto simp: compute_metrics_def split: list.splits if_splits sum.splits)

text \<open>
  Claim C4. The reported variance is the population variance of the variation series
  without its leading 0, and it is 0 when fewer than two deltas remain. The variation
  series \<open>[0, 2, -2, 2, -2]\<close> has variance 4.
\<close>

theorem hr_variance_population:
  "(drop 1 vs \<noteq> [] \<longrightarrow> hr_variance_of vs = population_variance (map of_int (drop 1 vs)))
   \<and> (length (drop 1 vs) < 2 \<longrightarrow> hr_variance_of vs = 0)
   \<and> (compute_metrics pfloat workout vs cur_hr ps n = Inr cm \<longrightarrow> hr_variance cm = hr_variance_of vs)
   \<and> hr_variance_of [0, 2, - 2, 2, - 2] = 4
   \<and> population_variance [2, - 2, 2, - 2] = 4"
proof -
  have a: "hr_variance_of vs = population_variance (map of_int (drop 1 vs))" if "drop 1 vs \<noteq> []"
  proof -
    from that have "1 < length vs" by simp
    then show ?thesis by (rule variance_unfold)
  qed
  have e: "population_variance [2, - 2, 2, - 2] = 4"
    by (simp add: population_variance_def)
  from a variance_few metrics_variance variance_example e show ?thesis by blast
qed

theorem hr_variance_population_witness:
  "drop 1 [0, 5, - 3] \<noteq> ([] :: int list)
   \<and> hr_variance_of [0, 5, - 3] = population_variance (map of_int (drop 1 [0, 5, - 3]))
   \<and> length (drop 1 [0, 7 :: int]) < 2
   \<and> hr_variance_of [0, 7] = 0
   \<and> compute_metrics ascii_float sample_workout [0, 5, - 3] [100, 105, 102] [1.5, 0, 2.25] 3
        = Inr sample_metrics
   \<and> hr_variance sample_metrics = hr_variance_of [0, 5, - 3]"
proof -
  note t = hr_variance_population [of "[0, 5, - 3]" ascii_float sample_workout
      "[100, 105, 102]" "[1.5, 0, 2.25]" 3 sample_metrics]
  have h1: "drop 1 [0, 5, - 3] \<noteq> ([] :: int list)" by simp
  have a: "hr_variance_of [0, 5, - 3] = population_variance (map of_int (drop 1 [0, 5, - 3]))"
    using t h1 by blast
  have h2: "length (drop 1 [0, 7 :: int]) < 2" by simp
  have b: "hr_variance_of [0, 7] = 0"
    using hr_variance_population [of "[0, 7]" ascii_float sample_workout
      "[100, 105, 102]" "[1.5, 0, 2.25]" 3 sample_metrics] h2 by blast
  have c: "hr_variance sample_metrics = hr_variance_of [0, 5, - 3]"
    using t sample_metrics_eval by blast
  from h1 a h2 b sample_metrics_eval c show ?thesis by blast
qed

section \<open>Decoding and processing of a workout\<close>

lemma split_on_nonempty: "split_on c s \<noteq> []"
  by (induction s) (auto split: list.splits)

lemma length_split_on: "length (split_on c s) = Suc (length (filter (\<lambda>x. x = c) s))"
proof (induction s)
  case Nil show ?case by simp
next
  case (Cons x xs)
  then show ?case using split_on_nonempty[of c xs]
    by (cases "split_on c xs") auto
qed

lemma split_on_parts: "Suc 0 < length (split_on c s) \<longleftrightarrow> c \<in> set s"
proof -
  have "filter (\<lambda>x. x = c) s \<noteq> [] \<longleftrightarrow> c \<in> set s"
    by (auto simp: filter_empty_conv)
  then show ?thesis by (simp add: length_split_on)
qed

lemma set_split_on: "x \<in> set (split_on c s) \<Longrightarrow> set x \<subseteq> set s"
proof (induction s arbitrary: x)
  case Nil then show ?case by simp
next
  case (Cons a s)
  show ?case
  proof (cases "a = c")
    case True
    with Cons.prems have "x = [] \<or> x \<in> set (split_on c s)" by simp
    then show ?thesis using Cons.IH by auto
  next
    case False
    obtain p ps where sp: "split_on c s = p # ps"
      using split_on_nonempty[of c s] by (cases "split_on c s") auto
    with False Cons.prems have "x = a # p \<or> x \<in> set ps" by simp
    then show ?thesis
    proof
      assume "x = a # p"
      moreover have "set p \<subseteq> set s" using Cons.IH[of p] sp by simp
      ultimately show ?thesis by auto
    next
      assume "x \<in> set ps"
      then have "x \<in> set (split_on c s)" using sp by simp
      then show ?thesis using Cons.IH by auto
    qed
  qed
qed

lemma set_strip: "set (strip s) \<subseteq> set s"
proof -
  have "set (dropWhile is_space (rev (dropWhile is_space s))) \<subseteq> set (rev (dropWhile is_space s))"
    by (auto dest: set_dropWhileD)
  also have "\<dots> \<subseteq> set s" by (auto dest: set_dropWhileD)
  finally show ?thesis by (simp add: strip_def)
qed

lemma replace_comma_free: "CHR '','' \<notin> set (replace_comma s)"
  by (auto simp: replace_comma_def)

lemma replace_comma_nth:
  "i < length s \<Longrightarrow> replace_comma s ! i = (if s ! i = CHR '','' then CHR ''.'' else s ! i)"
  by (simp add: replace_comma_def)

lemma parse_pace_comma_free: "tok \<in> set (parse_pace d) \<Longrightarrow> CHR '','' \<notin> set tok"
proof -
  assume "tok \<in> set (parse_pace d)"
  then obtain v where v: "v \<in> set (split_on CHR '';'' (replace_comma (get_str d ''pace'')))"
    and tok: "tok = strip v"
    by (auto simp: parse_pace_def Let_def)
  from set_split_on[OF v] set_strip[of v] tok
  have "set tok \<subseteq> set (replace_comma (get_str d ''pace''))" by blast
  then show ?thesis using replace_comma_free by blast
qed

lemma float_all_Some: "float_all pf xs = Some vs \<longleftrightarrow> map pf xs = map Some vs"
proof (induction xs arbitrary: vs)
  case Nil show ?case by auto
next
  case (Cons x xs)
  show ?case
  proof (cases "pf x")
    case None then show ?thesis by (cases vs) auto
  next
    case (Some v)
    show ?thesis
    proof (cases "float_all pf xs")
      case None
      with Cons.IH have "\<And>ws. map pf xs \<noteq> map Some ws" by simp
      with None Some show ?thesis by (cases vs) auto
    next
      case (Some ws)
      with Cons.IH[of ws] have m: "map pf xs = map Some ws" by simp
      have inj: "map Some ws = map Some us \<longleftrightarrow> ws = us" for us :: "real list"
        by (simp add: inj_map_eq_map)
      show ?thesis using \<open>pf x = Some v\<close> Some m inj by (cases vs) auto
    qed
  qed
qed

lemma float_all_None: "float_all pf xs = None \<longleftrightarrow> (\<exists>x\<in>set xs. pf x = None)"
  by (induction xs) (auto split: option.splits)

lemma float_all_length: "float_all pf xs = Some vs \<Longrightarrow> length vs = length xs"
  unfolding float_all_Some by (metis length_map)

lemma processed_pace_length:
  "n \<le> length raw \<Longrightarrow> length (processed_pace_of pf raw n) = n"
  by (auto simp: processed_pace_of_def dest: float_all_length split: option.splits)

lemma hr_loop_eq:
  "hr_loop pint segs acc = acc @ map (hr_token pint) (filter (\<lambda>seg. CHR '','' \<in> set seg) segs)"
  by (induction segs arbitrary: acc) (auto simp: Let_def split_on_parts hr_token_def split: option.splits)

lemma parse_hr_eq: "parse_hr pint d = map (hr_token pint) (comma_segments (get_str d ''heart_rate''))"
  by (simp add: parse_hr_def Let_def hr_loop_eq comma_segments_def nonempty_segments_def)


lemma num_points_common:
  "num_points_of (parse_times d) (parse_hr pint d) (parse_pace d) = common_prefix_length pint d"
  by (simp add: num_points_of_def common_prefix_length_def min.commute min.left_commute)

lemma process_skipped:
  "common_prefix_length pint d = 0 \<Longrightarrow>
     process_workout pint pfloat fmt w d = Inr (Skipped (no_data_warning (w ''trackid'')))"
  by (simp add: process_workout_def Let_def num_points_common)

lemma process_exported:
  assumes "process_workout pint pfloat fmt w d = Inr (Exported x)"
  shows "0 < common_prefix_length pint d"
    and "\<exists>start. start_time_of pint (w ''trackid'') = Inr start
           \<and> csv_timestamps x = generate_timestamps fmt start (common_prefix_length pint d)"
    and "csv_hr_variations x = hr_variations_of (parse_hr pint d) (common_prefix_length pint d)"
    and "csv_current_hr x = current_hr_of (parse_hr pint d) (common_prefix_length pint d)"
    and "csv_paces x = processed_pace_of pfloat (parse_pace d) (common_prefix_length pint d)"
    and "compute_metrics pfloat w (csv_hr_variations x) (csv_current_hr x) (csv_paces x)
           (common_prefix_length pint d) = Inr (csv_metrics x)"
  using assms
  by (auto simp: process_workout_def Let_def num_points_common split: if_splits sum.splits)

lemma exports_Cons_cong: "exports rs = exports rs' \<Longrightarrow> exports (r # rs) = exports (r # rs')"
  by (cases r) simp_all

lemma main_loop_skip:
  assumes "process_workout pint pfloat fmt w d = Inr (Skipped m)"
  shows "exports (fst (main_loop pint pfloat fmt (before @ (w, d) # after)))
           = exports (fst (main_loop pint pfloat fmt (before @ after)))
         \<and> snd (main_loop pint pfloat fmt (before @ (w, d) # after))
           = snd (main_loop pint pfloat fmt (before @ after))"
proof (induction before)
  case Nil
  show ?case using assms by (simp split: prod.splits)
next
  case (Cons b before)
  obtain w' d' where b: "b = (w', d')" by (cases b)
  show ?case using Cons.IH
    by (cases "process_workout pint pfloat fmt w' d'")
      (auto simp: b intro: exports_Cons_cong split: prod.splits)
qed

lemma rows_loop_ok:
  assumes "\<forall>i\<in>set idx. i < length (csv_timestamps x) \<and> i < length (csv_hr_variations x)
             \<and> i < length (csv_current_hr x) \<and> i < length (csv_paces x)"
  shows "\<exists>rows. rows_loop x idx = Inr rows \<and> length rows = length idx"
  using assms by (induction idx) (auto simp: py_index_def)

lemma length_current_hr: "length (current_hr_of hv n) = n"
  by (simp add: current_hr_of_def Let_def)

lemma length_variation_source: "hv \<noteq> [] \<Longrightarrow> length (0 # hr_differences_of hv) = length hv"
  by (cases hv) (auto simp: hr_differences_of_def)

lemma length_hr_variations: "hv \<noteq> [] \<Longrightarrow> n \<le> length hv \<Longrightarrow> length (hr_variations_of hv n) = n"
  using length_variation_source[of hv] by (simp add: hr_variations_of_def del: length_Cons)

lemma length_timestamps: "length (generate_timestamps fmt start n) = n"
  by (simp add: generate_timestamps_def)

lemma moving_count: "moving_of ps = length (filter (\<lambda>p. 0 < p) ps)"
  by (simp add: moving_of_def py_sum_eq sum_list_triv)

lemma common_prefix_le:
  "common_prefix_length pint d \<le> length (parse_times d)"
  "common_prefix_length pint d \<le> length (parse_hr pint d)"
  "common_prefix_length pint d \<le> length (parse_pace d)"
  by (simp_all add: common_prefix_length_def)

lemma metrics_fields:
  assumes "compute_metrics pfloat w hv ch ps n = Inr cm"
  shows "percentage_moving cm = percentage_moving_of ps n"
    and "percentage_idle cm = percentage_idle_of ps n"
    and "\<exists>laps pool_length. float_field pfloat w ''total_trips'' = Inr laps
           \<and> float_field pfloat w ''swim_pool_length'' = Inr pool_length
           \<and> total_distance cm = laps * pool_length"
  using assms
  by (auto simp: compute_metrics_def total_distance_of_def split: list.splits if_splits sum.splits)

lemma exported_paces_length:
  assumes "process_workout pint pfloat fmt w d = Inr (Exported x)"
  shows "length (csv_paces x) = common_prefix_length pint d"
  using process_exported(5)[OF assms] common_prefix_le(3)[of pint d]
  by (simp add: processed_pace_length)

lemma sample_no_pace: "common_prefix_length ascii_int sample_detail_no_pace = 0"
  by code_simp

lemma sample_batch:
  "main_loop ascii_int ascii_float clock_utc
     [(sample_workout, sample_detail), (sample_workout, sample_detail)]
   = ([Exported sample_export, Exported sample_export], None)"
  by (simp add: sample_process)


text \<open>
  Claim C5, as stated: every segment of the heart-rate string that is not empty yields
  exactly one token, so that the output is as long as the list of those segments. It fails
  on a segment without a comma, which line 74 skips: \<open>100,70;75\<close> has two segments and
  yields one token.
\<close>

theorem parse_hr_segment_dropped:
  "length (parse_hr ascii_int [''heart_rate'' \<mapsto> ''100,70;75''])
     \<noteq> length (nonempty_segments ''100,70;75'')"
  by code_simp


text \<open>
  Claim C5, amended. The decoder splits the heart-rate string on \<open>;\<close>; every segment that
  is not empty and holds a comma yields exactly one token, the second comma-separated field
  as an integer, or 0 when that field is malformed; a segment without a comma yields none.
  No segment fails the decoding, and the output is as long as the list of the segments that
  are not empty and hold a comma.
\<close>

theorem parse_hr_tokens:
  "parse_hr pint d = map (hr_token pint) (comma_segments (get_str d ''heart_rate''))
   \<and> length (parse_hr pint d) = length (comma_segments (get_str d ''heart_rate''))
   \<and> (pint (split_on CHR '','' seg ! 1) = None \<longrightarrow> hr_token pint seg = 0)
   \<and> (pint (split_on CHR '','' seg ! 1) = Some v \<longrightarrow> hr_token pint seg = v)"
  by (simp add: parse_hr_eq hr_token_def)

theorem parse_hr_tokens_witness:
  "ascii_int (split_on CHR '','' ''103,zz'' ! 1) = None
   \<and> hr_token ascii_int ''103,zz'' = 0
   \<and> ascii_int (split_on CHR '','' ''0,100'' ! 1) = Some 100
   \<and> hr_token ascii_int ''0,100'' = 100
   \<and> parse_hr ascii_int sample_detail = map (hr_token ascii_int) [''0,100'', ''1,5'', ''2,-3'']"
proof -
  have h1: "ascii_int (split_on CHR '','' ''103,zz'' ! 1) = None" by code_simp
  have h2: "ascii_int (split_on CHR '','' ''0,100'' ! 1) = Some 100" by code_simp
  have cs: "comma_segments (get_str sample_detail ''heart_rate'') = [''0,100'', ''1,5'', ''2,-3'']"
    by code_simp
  have a: "hr_token ascii_int ''103,zz'' = 0"
    using parse_hr_tokens [of ascii_int sample_detail "''103,zz''" 100] h1 by blast
  have b: "hr_token ascii_int ''0,100'' = 100"
    using parse_hr_tokens [of ascii_int sample_detail "''0,100''" 100] h2 by blast
  have c: "parse_hr ascii_int sample_detail = map (hr_token ascii_int) [''0,100'', ''1,5'', ''2,-3'']"
    using parse_hr_tokens [of ascii_int sample_detail "''0,100''" 100] cs by simp
  from h1 a h2 b c show ?thesis by blast
qed


text \<open>
  Claim C6. In the pace string every comma becomes a period before the string is split on
  \<open>;\<close>, so that no token holds a comma. Of the tokens cut to the target length, the pace
  series is the list of their values when \<open>pfloat\<close> accepts all of them, and the list of
  that many zeros when it rejects one.
\<close>

theorem pace_decoding:
  "length (replace_comma s) = length s
   \<and> (\<forall>i<length s. replace_comma s ! i = (if s ! i = CHR '','' then CHR ''.'' else s ! i))
   \<and> parse_pace d
       = map strip (filter (\<lambda>v. strip v \<noteq> []) (split_on CHR '';'' (replace_comma (get_str d ''pace''))))
   \<and> (\<forall>tok\<in>set (parse_pace d). CHR '','' \<notin> set tok)
   \<and> (map pfloat (take n raw_paces) = map Some vs \<longrightarrow> processed_pace_of pfloat raw_paces n = vs)
   \<and> ((\<exists>x\<in>set (take n raw_paces). pfloat x = None) \<longrightarrow>
        processed_pace_of pfloat raw_paces n = replicate n 0)
   \<and> (process_workout pint pfloat fmt w d = Inr (Exported x) \<longrightarrow>
        csv_paces x = processed_pace_of pfloat (parse_pace d) (common_prefix_length pint d))"
proof -
  have a: "length (replace_comma s) = length s" by (simp add: replace_comma_def)
  have b: "\<forall>i<length s. replace_comma s ! i = (if s ! i = CHR '','' then CHR ''.'' else s ! i)"
    using replace_comma_nth by blast
  have c: "parse_pace d
       = map strip (filter (\<lambda>v. strip v \<noteq> []) (split_on CHR '';'' (replace_comma (get_str d ''pace''))))"
    by (simp add: parse_pace_def Let_def)
  have e: "\<forall>tok\<in>set (parse_pace d). CHR '','' \<notin> set tok"
    using parse_pace_comma_free by blast
  have f: "processed_pace_of pfloat raw_paces n = vs" if "map pfloat (take n raw_paces) = map Some vs"
  proof -
    from that have "float_all pfloat (take n raw_paces) = Some vs" by (simp add: float_all_Some)
    then show ?thesis by (simp add: processed_pace_of_def)
  qed
  have g: "processed_pace_of pfloat raw_paces n = replicate n 0"
    if "\<exists>x\<in>set (take n raw_paces). pfloat x = None"
  proof -
    from that have "float_all pfloat (take n raw_paces) = None" by (simp add: float_all_None)
    then show ?thesis by (simp add: processed_pace_of_def)
  qed
  have h: "csv_paces x = processed_pace_of pfloat (parse_pace d) (common_prefix_length pint d)"
    if "process_workout pint pfloat fmt w d = Inr (Exported x)"
    using process_exported(5)[OF that] .
  from a b c e f g h show ?thesis by blast
qed

theorem pace_decoding_witness:
  "(1 :: nat) < length ''1,5''
   \<and> replace_comma ''1,5'' ! 1 = CHR ''.''
   \<and> ''1.5'' \<in> set (parse_pace sample_detail) \<and> CHR '','' \<notin> set ''1.5''
   \<and> map ascii_float (take 3 [''1.5'', ''0'', ''2.25'']) = map Some [1.5, 0, 2.25]
   \<and> processed_pace_of ascii_float [''1.5'', ''0'', ''2.25''] 3 = [1.5, 0, 2.25]
   \<and> ''x'' \<in> set (take 2 [''1.5'', ''x'', ''3'']) \<and> ascii_float ''x'' = None
   \<and> processed_pace_of ascii_float [''1.5'', ''x'', ''3''] 2 = [0, 0]
   \<and> process_workout ascii_int ascii_float clock_utc sample_workout sample_detail
        = Inr (Exported sample_export)
   \<and> csv_paces sample_export
        = processed_pace_of ascii_float (parse_pace sample_detail)
            (common_prefix_length ascii_int sample_detail)"
proof -
  note t = pace_decoding [of "''1,5''" sample_detail ascii_float 3 "[''1.5'', ''0'', ''2.25'']"
      "[1.5, 0, 2.25]" ascii_int clock_utc sample_workout sample_export]
  have h1: "(1 :: nat) < length ''1,5''" by simp
  have "replace_comma ''1,5'' ! 1 = (if ''1,5'' ! 1 = CHR '','' then CHR ''.'' else ''1,5'' ! 1)"
    using t h1 by blast
  then have a: "replace_comma ''1,5'' ! 1 = CHR ''.''" by simp
  have h2: "''1.5'' \<in> set (parse_pace sample_detail)" by (simp add: sample_parse)
  have b: "CHR '','' \<notin> set ''1.5''" using t h2 by blast
  have h3: "map ascii_float (take 3 [''1.5'', ''0'', ''2.25'']) = map Some [1.5, 0, 2.25]"
    by code_simp
  have c: "processed_pace_of ascii_float [''1.5'', ''0'', ''2.25''] 3 = [1.5, 0, 2.25]"
    using t h3 by blast
  have h4: "''x'' \<in> set (take 2 [''1.5'', ''x'', ''3''])" by (simp add: numeral_2_eq_2)
  have h5: "ascii_float ''x'' = None" by code_simp
  have "processed_pace_of ascii_float [''1.5'', ''x'', ''3''] 2 = replicate 2 0"
    using pace_decoding [of "''1,5''" sample_detail ascii_float 2 "[''1.5'', ''x'', ''3'']"
      "[]" ascii_int clock_utc sample_workout sample_export] h4 h5 by blast
  then have e: "processed_pace_of ascii_float [''1.5'', ''x'', ''3''] 2 = [0, 0]"
    by (simp add: numeral_2_eq_2)
  have f: "csv_paces sample_export
        = processed_pace_of ascii_float (parse_pace sample_detail)
            (common_prefix_length ascii_int sample_detail)"
    using t sample_process by blast
  from h1 a h2 b h3 c h4 h5 e sample_process f show ?thesis by blast
qed

text \<open>
  Claim C7. For a processed pace series that is not empty, the moving percentage is the
  number of samples with positive pace divided by the length of the series, times 100; the
  idle percentage is 100 minus the moving percentage; the total distance is the lap count
  times the pool length. The same holds of the figures in the metrics of every exported
  workout.
\<close>

theorem moving_percentage:
  "(ps \<noteq> [] \<longrightarrow>
      percentage_moving_of ps (length ps)
        = real (length (filter (\<lambda>p. 0 < p) ps)) / real (length ps) * 100
    \<and> percentage_idle_of ps (length ps) = 100 - percentage_moving_of ps (length ps))
   \<and> total_distance_of laps pool_length = laps * pool_length
   \<and> (process_workout pint pfloat fmt w d = Inr (Exported x) \<longrightarrow>
        csv_paces x \<noteq> []
      \<and> percentage_moving (csv_metrics x)
          = real (length (filter (\<lambda>p. 0 < p) (csv_paces x))) / real (length (csv_paces x)) * 100
      \<and> percentage_idle (csv_metrics x) = 100 - percentage_moving (csv_metrics x)
      \<and> (\<exists>trips pool. float_field pfloat w ''total_trips'' = Inr trips
            \<and> float_field pfloat w ''swim_pool_length'' = Inr pool
            \<and> total_distance (csv_metrics x) = trips * pool))"
proof -
  have a: "percentage_moving_of ps (length ps)
        = real (length (filter (\<lambda>p. 0 < p) ps)) / real (length ps) * 100"
    by (simp add: percentage_moving_of_def moving_count)
  have b: "percentage_idle_of ps (length ps) = 100 - percentage_moving_of ps (length ps)"
    by (simp add: percentage_idle_of_def)
  have c: "total_distance_of laps pool_length = laps * pool_length"
    by (simp add: total_distance_of_def)
  have e: "csv_paces x \<noteq> []
      \<and> percentage_moving (csv_metrics x)
          = real (length (filter (\<lambda>p. 0 < p) (csv_paces x))) / real (length (csv_paces x)) * 100
      \<and> percentage_idle (csv_metrics x) = 100 - percentage_moving (csv_metrics x)
      \<and> (\<exists>trips pool. float_field pfloat w ''total_trips'' = Inr trips
            \<and> float_field pfloat w ''swim_pool_length'' = Inr pool
            \<and> total_distance (csv_metrics x) = trips * pool)"
    if ex: "process_workout pint pfloat fmt w d = Inr (Exported x)"
  proof -
    let ?n = "common_prefix_length pint d"
    have len: "length (csv_paces x) = ?n" using ex by (rule exported_paces_length)
    have pos: "0 < ?n" using ex by (rule process_exported(1))
    have cm: "compute_metrics pfloat w (csv_hr_variations x) (csv_current_hr x) (csv_paces x) ?n
        = Inr (csv_metrics x)" using ex by (rule process_exported(6))
    have ne: "csv_paces x \<noteq> []" using len pos by auto
    have m: "percentage_moving (csv_metrics x) = percentage_moving_of (csv_paces x) (length (csv_paces x))"
      using metrics_fields(1)[OF cm] len by simp
    have i: "percentage_idle (csv_metrics x) = percentage_idle_of (csv_paces x) (length (csv_paces x))"
      using metrics_fields(2)[OF cm] len by simp
    show ?thesis
      using ne m i metrics_fields(3)[OF cm]
      by (simp add: percentage_idle_of_def percentage_moving_of_def moving_count)
  qed
  from a b c e show ?thesis by blast
qed

theorem moving_percentage_witness:
  "[1.5, 0, 2.25] \<noteq> ([] :: real list)
   \<and> percentage_moving_of [1.5, 0, 2.25] 3 = 200 / 3
   \<and> percentage_idle_of [1.5, 0, 2.25] 3 = 100 - 200 / 3
   \<and> process_workout ascii_int ascii_float clock_utc sample_workout sample_detail
        = Inr (Exported sample_export)
   \<and> percentage_moving (csv_metrics sample_export)
        = real (length (filter (\<lambda>p. 0 < p) (csv_paces sample_export)))
            / real (length (csv_paces sample_export)) * 100
   \<and> percentage_idle (csv_metrics sample_export) = 100 - percentage_moving (csv_metrics sample_export)"
proof -
  have ne: "[1.5, 0, 2.25] \<noteq> ([] :: real list)" by simp
  note t = moving_percentage [of "[1.5, 0, 2.25]" 20 25 ascii_int ascii_float clock_utc
      sample_workout sample_detail sample_export]
  have "percentage_moving_of [1.5, 0, 2.25] (length [1.5, 0, 2.25 :: real])
        = real (length (filter (\<lambda>p. 0 < p) [1.5, 0, 2.25 :: real])) / real (length [1.5, 0, 2.25 :: real]) * 100"
    using t ne by blast
  then have a: "percentage_moving_of [1.5, 0, 2.25] 3 = 200 / 3" by (simp add: numeral_3_eq_3)
  have "percentage_idle_of [1.5, 0, 2.25] (length [1.5, 0, 2.25 :: real])
      = 100 - percentage_moving_of [1.5, 0, 2.25] (length [1.5, 0, 2.25 :: real])"
    using t ne by blast
  then have b: "percentage_idle_of [1.5, 0, 2.25] 3 = 100 - 200 / 3"
    using a by (simp add: numeral_3_eq_3)
  have c: "percentage_moving (csv_metrics sample_export)
        = real (length (filter (\<lambda>p. 0 < p) (csv_paces sample_export)))
            / real (length (csv_paces sample_export)) * 100"
    using t sample_process by blast
  have e: "percentage_idle (csv_metrics sample_export) = 100 - percentage_moving (csv_metrics sample_export)"
    using t sample_process by blast
  from ne a b sample_process c e show ?thesis by blast
qed


text \<open>
  Claim C8. A workout whose common prefix length is 0 ends in the warning and yields no
  export, whatever its summary fields hold; the exports of the other workouts of the batch
  and the exception that ends the batch, if any, are those of the batch without it.
\<close>

theorem empty_workout_skipped:
  "common_prefix_length pint d = 0 \<longrightarrow>
     process_workout pint pfloat fmt w d = Inr (Skipped (no_data_warning (w ''trackid'')))
   \<and> exports [Skipped (no_data_warning (w ''trackid''))] = []
   \<and> exports (fst (main_loop pint pfloat fmt (before @ (w, d) # after)))
       = exports (fst (main_loop pint pfloat fmt (before @ after)))
   \<and> snd (main_loop pint pfloat fmt (before @ (w, d) # after))
       = snd (main_loop pint pfloat fmt (before @ after))"
proof
  assume z: "common_prefix_length pint d = 0"
  have s: "process_workout pint pfloat fmt w d = Inr (Skipped (no_data_warning (w ''trackid'')))"
    using z by (rule process_skipped)
  from s main_loop_skip[OF s, of before after]
  show "process_workout pint pfloat fmt w d = Inr (Skipped (no_data_warning (w ''trackid'')))
   \<and> exports [Skipped (no_data_warning (w ''trackid''))] = []
   \<and> exports (fst (main_loop pint pfloat fmt (before @ (w, d) # after)))
       = exports (fst (main_loop pint pfloat fmt (before @ after)))
   \<and> snd (main_loop pint pfloat fmt (before @ (w, d) # after))
       = snd (main_loop pint pfloat fmt (before @ after))"
    by simp
qed

theorem empty_workout_skipped_witness:
  "common_prefix_length ascii_int sample_detail_no_pace = 0
   \<and> process_workout ascii_int ascii_float clock_utc sample_workout sample_detail_no_pace
       = Inr (Skipped ''No usable data for workout 1700000000'')
   \<and> exports (fst (main_loop ascii_int ascii_float clock_utc
         [(sample_workout, sample_detail), (sample_workout, sample_detail_no_pace),
          (sample_workout, sample_detail)]))
       = [sample_export, sample_export]
   \<and> snd (main_loop ascii_int ascii_float clock_utc
         [(sample_workout, sample_detail), (sample_workout, sample_detail_no_pace),
          (sample_workout, sample_detail)])
       = None"
proof -
  note t = empty_workout_skipped [of ascii_int sample_detail_no_pace ascii_float clock_utc
      sample_workout "[(sample_workout, sample_detail)]" "[(sample_workout, sample_detail)]"]
  have w: "no_data_warning (sample_workout ''trackid'') = ''No usable data for workout 1700000000''"
    by (simp add: no_data_warning_def sample_workout_def)
  let ?s = "(sample_workout, sample_detail)"
  let ?e = "(sample_workout, sample_detail_no_pace)"
  have a: "process_workout ascii_int ascii_float clock_utc sample_workout sample_detail_no_pace
       = Inr (Skipped (no_data_warning (sample_workout ''trackid'')))"
    using t sample_no_pace by blast
  have "exports (fst (main_loop ascii_int ascii_float clock_utc ([?s] @ ?e # [?s])))
      = exports (fst (main_loop ascii_int ascii_float clock_utc ([?s] @ [?s])))"
    using t sample_no_pace by blast
  then have b: "exports (fst (main_loop ascii_int ascii_float clock_utc [?s, ?e, ?s]))
      = [sample_export, sample_export]"
    by (simp only: append.simps sample_batch fst_conv exports.simps)
  have "snd (main_loop ascii_int ascii_float clock_utc ([?s] @ ?e # [?s]))
      = snd (main_loop ascii_int ascii_float clock_utc ([?s] @ [?s]))"
    using t sample_no_pace by blast
  then have c: "snd (main_loop ascii_int ascii_float clock_utc [?s, ?e, ?s]) = None"
    by (simp only: append.simps sample_batch snd_conv)
  from sample_no_pace a b c show ?thesis
    by (simp only: w)
qed

section \<open>Lengths of the exported series\<close>

lemma exported_rows:
  assumes ex: "process_workout pint pfloat fmt w d = Inr (Exported x)"
  shows "length (csv_timestamps x) = common_prefix_length pint d"
    and "length (csv_hr_variations x) = common_prefix_length pint d"
    and "length (csv_current_hr x) = common_prefix_length pint d"
    and "parse_hr pint d \<noteq> []"
    and "\<exists>rows. time_series_rows x = Inr rows \<and> length rows = common_prefix_length pint d"
proof -
  let ?n = "common_prefix_length pint d"
  have pos: "0 < ?n" using ex by (rule process_exported(1))
  with common_prefix_le(2)[of pint d] show ne: "parse_hr pint d \<noteq> []" by auto
  from process_exported(2)[OF ex] show lt: "length (csv_timestamps x) = ?n"
    by (auto simp: length_timestamps)
  show lv: "length (csv_hr_variations x) = ?n"
    using process_exported(3)[OF ex] ne common_prefix_le(2)[of pint d]
    by (simp add: length_hr_variations)
  show lc: "length (csv_current_hr x) = ?n"
    using process_exported(4)[OF ex] by (simp add: length_current_hr)
  have lp: "length (csv_paces x) = ?n" using ex by (rule exported_paces_length)
  have "\<forall>i\<in>set [0..<length (csv_timestamps x)]. i < length (csv_timestamps x)
      \<and> i < length (csv_hr_variations x) \<and> i < length (csv_current_hr x) \<and> i < length (csv_paces x)"
    using lt lv lc lp by simp
  from rows_loop_ok[OF this] lt
  show "\<exists>rows. time_series_rows x = Inr rows \<and> length rows = ?n"
    by (simp add: time_series_rows_def)
qed

text \<open>
  Claim C10. When the common prefix length \<open>n\<close> is positive, the heart-rate tokens are not
  empty, so that the starting value is the first token and never the default 70; the list
  \<open>[0] + hr_differences\<close> is as long as the tokens, hence at least \<open>n\<close> long, and its cut
  to \<open>n\<close> has length \<open>n\<close>; the absolute series, the pace series and the timestamps have
  length \<open>n\<close>; and for every exported workout the rows of the time series are emitted
  without an index out of range, one row for each of the \<open>n\<close> indices.
\<close>

theorem series_lengths:
  "(n = num_points_of raw_times hr_values raw_paces \<and> 0 < n \<longrightarrow>
      hr_values \<noteq> []
    \<and> base_hr_of hr_values = of_int (hr_values ! 0)
    \<and> length (0 # hr_differences_of hr_values) = length hr_values
    \<and> n \<le> length hr_values
    \<and> length (hr_variations_of hr_values n) = n
    \<and> length (current_hr_of hr_values n) = n
    \<and> length (processed_pace_of pfloat raw_paces n) = n
    \<and> length (generate_timestamps fmt start n) = n)
   \<and> (process_workout pint pfloat fmt w d = Inr (Exported x) \<longrightarrow>
      0 < common_prefix_length pint d
    \<and> parse_hr pint d \<noteq> []
    \<and> length (csv_timestamps x) = common_prefix_length pint d
    \<and> length (csv_hr_variations x) = common_prefix_length pint d
    \<and> length (csv_current_hr x) = common_prefix_length pint d
    \<and> length (csv_paces x) = common_prefix_length pint d
    \<and> (\<exists>rows. time_series_rows x = Inr rows \<and> length rows = common_prefix_length pint d))"
proof -
  have first: "hr_values \<noteq> []
    \<and> base_hr_of hr_values = of_int (hr_values ! 0)
    \<and> length (0 # hr_differences_of hr_values) = length hr_values
    \<and> n \<le> length hr_values
    \<and> length (hr_variations_of hr_values n) = n
    \<and> length (current_hr_of hr_values n) = n
    \<and> length (processed_pace_of pfloat raw_paces n) = n
    \<and> length (generate_timestamps fmt start n) = n"
    if n: "n = num_points_of raw_times hr_values raw_paces" and pos: "0 < n"
  proof -
    from n have le: "n \<le> length hr_values" and lp: "n \<le> length raw_paces"
      by (simp_all add: num_points_of_def)
    from le pos have ne: "hr_values \<noteq> []" by auto
    show ?thesis
      using ne le length_variation_source[OF ne] length_hr_variations[OF ne le]
        processed_pace_length[OF lp, of pfloat]
      by (simp add: base_hr_of_def length_current_hr length_timestamps del: length_Cons)
  qed
  have second: "0 < common_prefix_length pint d
    \<and> parse_hr pint d \<noteq> []
    \<and> length (csv_timestamps x) = common_prefix_length pint d
    \<and> length (csv_hr_variations x) = common_prefix_length pint d
    \<and> length (csv_current_hr x) = common_prefix_length pint d
    \<and> length (csv_paces x) = common_prefix_length pint d
    \<and> (\<exists>rows. time_series_rows x = Inr rows \<and> length rows = common_prefix_length pint d)"
    if ex: "process_workout pint pfloat fmt w d = Inr (Exported x)"
    using process_exported(1)[OF ex] exported_rows[OF ex] exported_paces_length[OF ex]
    by blast
  from first second show ?thesis by blast
qed

theorem series_lengths_witness:
  "(3 :: nat) = num_points_of [''0'', ''1'', ''2'', ''3''] [100, 5, - 3] [''1.5'', ''0'', ''2.25'']
   \<and> (0 :: nat) < 3
   \<and> base_hr_of [100, 5, - 3] = of_int ([100, 5, - 3] ! 0)
   \<and> length (hr_variations_of [100, 5, - 3] 3) = 3
   \<and> length (current_hr_of [100, 5, - 3] 3) = 3
   \<and> length (processed_pace_of ascii_float [''1.5'', ''0'', ''2.25''] 3) = 3
   \<and> process_workout ascii_int ascii_float clock_utc sample_workout sample_detail
        = Inr (Exported sample_export)
   \<and> length (csv_paces sample_export) = common_prefix_length ascii_int sample_detail
   \<and> (\<exists>rows. time_series_rows sample_export = Inr rows
         \<and> length rows = common_prefix_length ascii_int sample_detail)"
proof -
  note t = series_lengths [of 3 "[''0'', ''1'', ''2'', ''3'']" "[100, 5, - 3]"
      "[''1.5'', ''0'', ''2.25'']" ascii_float clock_utc 1700000000 ascii_int sample_workout
      sample_detail sample_export]
  have h: "(3 :: nat) = num_points_of [''0'', ''1'', ''2'', ''3''] [100, 5, - 3] [''1.5'', ''0'', ''2.25'']
      \<and> (0 :: nat) < 3"
    by (simp add: num_points_of_def)
  from t h sample_process show ?thesis by blast
qed

section \<open>A pace stream that starts with a negative token\<close>

lemma negative_start_parse:
  "parse_times negative_start_detail = [''0'', ''1'', ''2'']"
  "parse_hr ascii_int negative_start_detail = [60, 5, 5]"
  "parse_pace negative_start_detail = [''-1'', ''2'', ''2'']"
  by code_simp+

lemma negative_start_steps:
  "current_hr_of [60, 5, 5] 3 = [60, 65, 70]"
  "hr_variations_of [60, 5, 5] 3 = [0, 5, 5]"
  "processed_pace_of ascii_float [''-1'', ''2'', ''2''] 3 = [- 1, 2, 2]"
  by code_simp+

lemma negative_start_metrics_eval:
  "compute_metrics ascii_float sample_workout [0, 5, 5] [60, 65, 70] [- 1, 2, 2] 3
     = Inr negative_start_metrics"
  by code_simp

lemma negative_start_process:
  "process_workout ascii_int ascii_float clock_utc sample_workout negative_start_detail
     = Inr (Exported negative_start_export)"
proof -
  have n: "num_points_of [''0'', ''1'', ''2''] [60, 5, 5] [''-1'', ''2'', ''2''] = 3"
    by (simp add: num_points_of_def)
  have tid: "sample_workout ''trackid'' = Some ''1700000000''"
    by (simp add: sample_workout_def)
  show ?thesis
    unfolding process_workout_def Let_def negative_start_parse n tid sample_steps
      negative_start_steps negative_start_metrics_eval
    by (simp add: sample_timestamps negative_start_export_def)
qed

lemma negative_start_segment: "segment [- 1, 2, 2] = Inr ([0, 2], [1])"
  by (simp add: segment_def initial_state_def)

lemma negative_start_runs: "effort_runs [- 1, 2, 2] = [2]" "rest_runs [- 1, 2, 2] = [1]"
  by (simp_all add: effort_runs_def rest_runs_def moving_flags_def)

lemma negative_then_positive_pace:
  "processed_pace_of ascii_float (parse_pace negative_then_positive_detail) 2 = [- 2, 3]"
  by code_simp


section \<open>Zone percentages of a workout\<close>

lemma metrics_zones:
  "compute_metrics pfloat w hv ch ps n = Inr cm \<Longrightarrow>
     zone_percentages cm = zone_percentages_of hr_max_theoretical ch n"
  by (auto simp: compute_metrics_def split: list.splits if_splits sum.splits)

lemma exported_zones:
  assumes ex: "process_workout pint pfloat fmt w d = Inr (Exported x)"
  shows "csv_current_hr x \<noteq> []"
    and "zone_percentages (csv_metrics x)
           = zone_percentages_of hr_max_theoretical (csv_current_hr x) (length (csv_current_hr x))"
proof -
  have len: "length (csv_current_hr x) = common_prefix_length pint d"
    using ex by (rule exported_rows(3))
  with process_exported(1)[OF ex] show "csv_current_hr x \<noteq> []" by auto
  from metrics_zones[OF process_exported(6)[OF ex]] len
  show "zone_percentages (csv_metrics x)
           = zone_percentages_of hr_max_theoretical (csv_current_hr x) (length (csv_current_hr x))"
    by simp
qed

text \<open>
  Claim C3. For every heart-rate series and maximum \<open>M\<close>, the count of a zone is the number
  of samples whose first containing band, in the listed order, is the band of that zone, so
  that a sample is counted in at most one band; a sample below 50 per cent of \<open>M\<close> or at or
  above \<open>M\<close> is counted in no band; each percentage is the count of its zone divided by the
  number of samples, times 100; and when every sample lies below 50 per cent of \<open>M\<close> or at
  or above \<open>M\<close>, the five percentages sum to 0. The percentages that a workout reports are
  these, for the maximum 196, the exported heart-rate series and its length.
\<close>

theorem zone_classification:
  "map fst (zone_counts_of M hrs) = map zone_label [0..<5]
   \<and> (\<forall>k<5. map_of (zone_counts_of M hrs) (zone_label k)
               = Some (length (filter (first_band M k) hrs)))
   \<and> (\<forall>h j k. first_band M j h \<and> first_band M k h \<longrightarrow> j = k)
   \<and> sum_list (map snd (zone_counts_of M hrs)) \<le> length hrs
   \<and> (\<forall>h. h < 0.5 * M \<or> M \<le> h \<longrightarrow> find_zone (hr_zones M) h = None \<and> (\<forall>k<5. \<not> first_band M k h))
   \<and> (hrs \<noteq> [] \<longrightarrow>
        (\<forall>k<5. map_of (zone_percentages_of M hrs (length hrs)) (zone_label k)
               = Some (real (length (filter (first_band M k) hrs)) / real (length hrs) * 100)))
   \<and> ((\<forall>h\<in>set hrs. h < 0.5 * M \<or> M \<le> h) \<longrightarrow>
        sum_list (map snd (zone_percentages_of M hrs (length hrs))) = 0)
   \<and> hr_max_theoretical = 196
   \<and> (compute_metrics pfloat w hv hrs ps n = Inr cm \<longrightarrow>
        zone_percentages cm = zone_percentages_of hr_max_theoretical hrs n)
   \<and> (process_workout pint pfloat fmt w d = Inr (Exported x) \<longrightarrow>
        csv_current_hr x \<noteq> []
      \<and> map fst (zone_percentages (csv_metrics x)) = map zone_label [0..<5]
      \<and> (\<forall>k<5. map_of (zone_percentages (csv_metrics x)) (zone_label k)
                 = Some (real (length (filter (first_band hr_max_theoretical k) (csv_current_hr x)))
                         / real (length (csv_current_hr x)) * 100))
      \<and> ((\<forall>h\<in>set (csv_current_hr x). h < 0.5 * hr_max_theoretical \<or> hr_max_theoretical \<le> h) \<longrightarrow>
            sum_list (map snd (zone_percentages (csv_metrics x))) = 0))"
proof -
  have a: "map fst (zone_counts_of M hrs) = map zone_label [0..<5]"
    by (rule zone_counts_keys)
  have b: "\<forall>k<5. map_of (zone_counts_of M hrs) (zone_label k)
               = Some (length (filter (first_band M k) hrs))"
    using zone_counts_lookup by blast
  have c: "\<forall>h j k. first_band M j h \<and> first_band M k h \<longrightarrow> j = k"
    using first_band_unique by blast
  have d: "sum_list (map snd (zone_counts_of M hrs)) \<le> length hrs"
    by (simp add: zone_counts_total)
  have e: "\<forall>h. h < 0.5 * M \<or> M \<le> h \<longrightarrow>
             find_zone (hr_zones M) h = None \<and> (\<forall>k<5. \<not> first_band M k h)"
  proof (intro allI impI)
    fix h assume o: "h < 0.5 * M \<or> M \<le> h"
    then have n: "\<forall>k<5. \<not> in_band M k h" using outside_no_band by blast
    then have "find_zone (hr_zones M) h = None" using find_zone_some by blast
    moreover from n have "\<forall>k<5. \<not> first_band M k h" by (simp add: first_band_def)
    ultimately show "find_zone (hr_zones M) h = None \<and> (\<forall>k<5. \<not> first_band M k h)" by blast
  qed
  have f: "\<forall>k<5. map_of (zone_percentages_of M hrs (length hrs)) (zone_label k)
               = Some (real (length (filter (first_band M k) hrs)) / real (length hrs) * 100)"
    by (simp add: zone_percentages_lookup zone_counts_lookup)
  have g: "(\<forall>h\<in>set hrs. h < 0.5 * M \<or> M \<le> h) \<longrightarrow>
        sum_list (map snd (zone_percentages_of M hrs (length hrs))) = 0"
    using zone_percentages_outside by blast
  have h: "hr_max_theoretical = 196"
    by (simp add: hr_max_theoretical_def)
  have i: "zone_percentages cm = zone_percentages_of hr_max_theoretical hrs n"
    if "compute_metrics pfloat w hv hrs ps n = Inr cm"
    using that by (rule metrics_zones)
  have j: "csv_current_hr x \<noteq> []
      \<and> map fst (zone_percentages (csv_metrics x)) = map zone_label [0..<5]
      \<and> (\<forall>k<5. map_of (zone_percentages (csv_metrics x)) (zone_label k)
                 = Some (real (length (filter (first_band hr_max_theoretical k) (csv_current_hr x)))
                         / real (length (csv_current_hr x)) * 100))
      \<and> ((\<forall>h\<in>set (csv_current_hr x). h < 0.5 * hr_max_theoretical \<or> hr_max_theoretical \<le> h) \<longrightarrow>
            sum_list (map snd (zone_percentages (csv_metrics x))) = 0)"
    if ex: "process_workout pint pfloat fmt w d = Inr (Exported x)"
  proof -
    note z = exported_zones(2)[OF ex]
    have keys: "map fst (zone_percentages (csv_metrics x)) = map zone_label [0..<5]"
      unfolding z
      using zone_counts_keys[of hr_max_theoretical "csv_current_hr x"]
      by (simp add: zone_percentages_of_def comp_def case_prod_unfold del: upt.simps)
    have look: "\<forall>k<5. map_of (zone_percentages (csv_metrics x)) (zone_label k)
                 = Some (real (length (filter (first_band hr_max_theoretical k) (csv_current_hr x)))
                         / real (length (csv_current_hr x)) * 100)"
      unfolding z by (simp add: zone_percentages_lookup zone_counts_lookup)
    have out: "(\<forall>h\<in>set (csv_current_hr x). h < 0.5 * hr_max_theoretical \<or> hr_max_theoretical \<le> h) \<longrightarrow>
            sum_list (map snd (zone_percentages (csv_metrics x))) = 0"
      unfolding z using zone_percentages_outside by blast
    from exported_zones(1)[OF ex] keys look out show ?thesis by blast
  qed
  from a b c d e f g h i j show ?thesis by blast
qed


theorem zone_classification_witness:
  "(0 :: nat) < 5
   \<and> map_of (zone_counts_of 196 [97, 98, 117, 118, 196, 195, 140]) (zone_label 0) = Some 2
   \<and> first_band 196 0 98
   \<and> ((97 :: real) < 0.5 * 196 \<or> (196 :: real) \<le> 97)
   \<and> find_zone (hr_zones 196) 97 = None
   \<and> [97, 98, 117, 118, 196, 195, 140] \<noteq> ([] :: real list)
   \<and> map_of (zone_percentages_of 196 [97, 98, 117, 118, 196, 195, 140] 7) (zone_label 0)
       = Some (2 / 7 * 100)
   \<and> ((60 :: real) < 0.5 * 196 \<or> (196 :: real) \<le> 60)
   \<and> ((200 :: real) < 0.5 * 196 \<or> (196 :: real) \<le> 200)
   \<and> sum_list (map snd (zone_percentages_of 196 [60, 200] 2)) = 0
   \<and> compute_metrics ascii_float sample_workout [0, 5, - 3] [100, 105, 102] [1.5, 0, 2.25] 3
       = Inr sample_metrics
   \<and> zone_percentages sample_metrics = zone_percentages_of hr_max_theoretical [100, 105, 102] 3
   \<and> process_workout ascii_int ascii_float clock_utc sample_workout sample_detail
       = Inr (Exported sample_export)
   \<and> map_of (zone_percentages (csv_metrics sample_export)) (zone_label 0) = Some 100
   \<and> process_workout ascii_int ascii_float clock_utc sample_workout negative_start_detail
       = Inr (Exported negative_start_export)
   \<and> (60 :: real) < 0.5 * hr_max_theoretical \<and> (65 :: real) < 0.5 * hr_max_theoretical
   \<and> (70 :: real) < 0.5 * hr_max_theoretical
   \<and> sum_list (map snd (zone_percentages (csv_metrics negative_start_export))) = 0"
proof -
  let ?hrs = "[97, 98, 117, 118, 196, 195, 140] :: real list"
  note t = zone_classification [of 196 ?hrs ascii_float sample_workout "[0, 5, - 3]"
      "[1.5, 0, 2.25]" 3 sample_metrics ascii_int clock_utc sample_detail sample_export]
  have k: "(0 :: nat) < 5" by simp
  have fb: "filter (first_band 196 0) ?hrs = [98, 117]"
    by (simp add: first_band_def in_band_def)
  have "map_of (zone_counts_of 196 ?hrs) (zone_label 0) = Some (length (filter (first_band 196 0) ?hrs))"
    using t k by blast
  then have a: "map_of (zone_counts_of 196 ?hrs) (zone_label 0) = Some 2"
    by (simp only: fb) simp
  have b: "first_band 196 0 98"
    by (simp add: first_band_def in_band_def)
  have o: "(97 :: real) < 0.5 * 196 \<or> (196 :: real) \<le> 97" by simp
  have c: "find_zone (hr_zones 196) 97 = None"
    using t o by blast
  have ne: "?hrs \<noteq> []" by simp
  have len: "length ?hrs = 7" by simp
  have "map_of (zone_percentages_of 196 ?hrs (length ?hrs)) (zone_label 0)
      = Some (real (length (filter (first_band 196 0) ?hrs)) / real (length ?hrs) * 100)"
    using t k ne by blast
  then have d: "map_of (zone_percentages_of 196 ?hrs 7) (zone_label 0) = Some (2 / 7 * 100)"
    by (simp only: fb len) simp
  have o2: "\<forall>h\<in>set [60, 200 :: real]. h < 0.5 * 196 \<or> 196 \<le> h" by simp
  have "sum_list (map snd (zone_percentages_of 196 [60, 200] (length [60, 200 :: real]))) = 0"
    using zone_classification [of 196 "[60, 200]" ascii_float sample_workout "[0, 5, - 3]"
      "[1.5, 0, 2.25]" 3 sample_metrics ascii_int clock_utc sample_detail sample_export] o2
    by blast
  then have e: "sum_list (map snd (zone_percentages_of 196 [60, 200] 2)) = 0"
    by (simp add: numeral_2_eq_2)
  note u = zone_classification [of 196 "[100, 105, 102]" ascii_float sample_workout "[0, 5, - 3]"
      "[1.5, 0, 2.25]" 3 sample_metrics ascii_int clock_utc sample_detail sample_export]
  have f: "zone_percentages sample_metrics = zone_percentages_of hr_max_theoretical [100, 105, 102] 3"
    using u sample_metrics_eval by blast
  have "map_of (zone_percentages (csv_metrics sample_export)) (zone_label 0)
      = Some (real (length (filter (first_band hr_max_theoretical 0) (csv_current_hr sample_export)))
              / real (length (csv_current_hr sample_export)) * 100)"
    using u k sample_process by blast
  moreover have "filter (first_band hr_max_theoretical 0) (csv_current_hr sample_export)
      = [100, 105, 102]"
    by (simp add: sample_export_def hr_max_theoretical_def first_band_def in_band_def)
  moreover have "length (csv_current_hr sample_export) = 3"
    by (simp add: sample_export_def)
  ultimately have g: "map_of (zone_percentages (csv_metrics sample_export)) (zone_label 0) = Some 100"
    by simp
  have low: "(60 :: real) < 0.5 * hr_max_theoretical \<and> (65 :: real) < 0.5 * hr_max_theoretical
      \<and> (70 :: real) < 0.5 * hr_max_theoretical"
    by (simp add: hr_max_theoretical_def)
  then have o3: "\<forall>h\<in>set (csv_current_hr negative_start_export).
      h < 0.5 * hr_max_theoretical \<or> hr_max_theoretical \<le> h"
    by (simp add: negative_start_export_def)
  have i: "sum_list (map snd (zone_percentages (csv_metrics negative_start_export))) = 0"
    using zone_classification [of 196 "[60, 65, 70]" ascii_float sample_workout "[0, 5, 5]"
      "[- 1, 2, 2]" 3 negative_start_metrics ascii_int clock_utc negative_start_detail
      negative_start_export] negative_start_process o3
    by blast
  from k a b o c ne d e sample_metrics_eval f sample_process g negative_start_process low i
  show ?thesis by simp
qed

section \<open>The first sample of the segmenter\<close>

text \<open>Every series that starts with a negative sample gets the additional effort duration
  0 in front of the lengths of its runs.\<close>

lemma segment_negative_first:
  assumes "ps \<noteq> []" "ps ! 0 < 0"
  shows "segment ps = Inr (0 # effort_runs ps, rest_runs ps)"
proof -
  obtain p qs where ps: "ps = p # qs" using assms(1) by (cases ps) auto
  with assms(2) have p: "p < 0" by simp
  have first: "segment_loop ps (initial_state ps) 0 [] [] = segment_loop qs Idle (Suc 0) [0] []"
    using p by (simp add: ps initial_state_def)
  have flags: "replicate (Suc 0) (Idle = Effort) @ moving_flags qs = moving_flags ps"
    using p by (simp add: ps moving_flags_def)
  have "flush (segment_loop ps (initial_state ps) 0 [] []) = (0 # effort_runs ps, rest_runs ps)"
    unfolding first effort_runs_def rest_runs_def flags[symmetric]
    using loop_runs[of qs Idle 0 "[0]" "[]"] by simp
  then show ?thesis using assms(1) by (simp add: segment_def)
qed

text \<open>
  Claim C2. For every pace series that is not empty, the segmenter starts idle iff the first
  sample is 0 and otherwise in effort; the two lists hold the lengths of the maximal runs of
  samples with positive pace and of the other samples, and their arithmetic means are
  reported. The program breaks this on a series that starts with a negative sample: line 258
  tests the first sample for being 0, lines 261 and 287 test a sample for being positive, so
  the state starts as effort, the loop takes the sample for rest, and a run of length 0 goes
  to the effort durations. For the pace stream \<open>-1;2;2\<close> the effort durations are \<open>[0, 2]\<close>
  and their reported mean is 1, where the one run of moving samples has length 2.
\<close>

theorem segmenter_negative_start:
  "process_workout ascii_int ascii_float clock_utc sample_workout negative_start_detail
     = Inr (Exported negative_start_export)
   \<and> csv_paces negative_start_export = [- 1, 2, 2]
   \<and> initial_state [- 1, 2, 2] = Effort
   \<and> segment [- 1, 2, 2] = Inr ([0, 2], [1])
   \<and> effort_runs [- 1, 2, 2] = [2]
   \<and> rest_runs [- 1, 2, 2] = [1]
   \<and> avg_effort_duration (csv_metrics negative_start_export) = 1
   \<and> mean_duration (effort_runs [- 1, 2, 2]) = 2"
  by (simp add: negative_start_process negative_start_segment negative_start_runs
        negative_start_export_def negative_start_metrics_def initial_state_def mean_duration_def)


text \<open>
  Claim C9. For every pace series of length \<open>n > 0\<close> the recorded durations sum to \<open>n\<close>,
  every recorded duration is at least 1, and one of the two lists is not empty. Through the
  same test of line 258 the program records an effort duration of 0 for the pace stream
  \<open>-2;3\<close>.
\<close>

theorem segmenter_zero_duration:
  "processed_pace_of ascii_float (parse_pace negative_then_positive_detail) 2 = [- 2, 3]
   \<and> segment [- 2, 3] = Inr ([0, 1], [1])
   \<and> sum_list [0, 1] + sum_list [1] = length [- 2, 3 :: real]
   \<and> \<not> (1 :: nat) \<le> [0, 1] ! 0"
  by (simp add: negative_then_positive_pace segment_def initial_state_def)


end
